theory Spec2Isabelle
  imports Main "HOL-Library.Sublist" "HOL-Library.Multiset" "HOL-Library.Log_Nat"
begin

section \<open>Python values\<close>

text \<open>
  A Python \<open>str\<close> is a sequence of Unicode code points, and \<open>len\<close> counts code points.
  The bar glyphs and the emoji of the source lie outside Latin-1, so a string is modelled
  as the list of its code points; \<open>ascii\<close> embeds an ASCII literal.
\<close>

type_synonym pystr = "nat list"

definition ascii :: "string \<Rightarrow> pystr" where
  "ascii s = map of_char s"

text \<open>The exceptions the modelled code can raise; \<open>ReError\<close> is \<open>re.error\<close>.\<close>

datatype error = KeyError | ValueError | ZeroDivisionError | OverflowError | IndexError | ReError

text \<open>
  A Python \<open>float\<close> is modelled by the rational number that is its exact value (every
  finite binary64 value is a rational). The sign of zero, infinities and NaN have no
  counterpart; none of them arises from the percentages the code computes.

  \<open>round(x)\<close> on a float rounds the exact value to the nearest integer, a tie going to
  the even neighbour.
\<close>

definition py_round :: "rat \<Rightarrow> int" where
  "py_round x =
     (let f = \<lfloor>x\<rfloor>; d = x - of_int f
      in if d < 1 / 2 then f else if 1 / 2 < d then f + 1 else if even f then f else f + 1)"

text \<open>\<open>s * k\<close> for a string and an integer: the empty string when \<open>k\<close> is not positive.\<close>

definition py_repeat :: "pystr \<Rightarrow> int \<Rightarrow> pystr" where
  "py_repeat s k = concat (replicate (nat k) s)"

text \<open>\<open>xs[:k]\<close>: a negative \<open>k\<close> counts from the end.\<close>

definition slice_to :: "'a list \<Rightarrow> int \<Rightarrow> 'a list" where
  "slice_to xs k = (if 0 \<le> k then take (nat k) xs else take (length xs - nat (- k)) xs)"

text \<open>\<open>sep.join(xs)\<close>.\<close>

fun py_join :: "pystr \<Rightarrow> pystr list \<Rightarrow> pystr" where
  "py_join sep [] = []"
| "py_join sep [x] = x"
| "py_join sep (x # y # ys) = x @ sep @ py_join sep (y # ys)"

text \<open>The decimal digits of a natural number, and \<open>str(i)\<close> for an integer.\<close>

fun digits :: "nat \<Rightarrow> pystr" where
  "digits n = (if n < 10 then [48 + n] else digits (n div 10) @ [48 + n mod 10])"

declare digits.simps [simp del]

definition str_int :: "int \<Rightarrow> pystr" where
  "str_int i = (if i < 0 then ascii ''-'' @ digits (nat (- i)) else digits (nat i))"

text \<open>
  The format specification \<open>05.2f\<close>: the exact value rounded to two decimals (ties to
  even), written in fixed point, and padded with zeros after the sign up to a width of
  five characters. A wider number is not cut.
\<close>

definition format_05_2f :: "rat \<Rightarrow> pystr" where
  "format_05_2f p =
     (let n = nat (py_round (\<bar>p\<bar> * 100));
          sign = (if p < 0 then ascii ''-'' else []);
          body = digits (n div 100) @ ascii ''.'' @ [48 + (n mod 100) div 10, 48 + n mod 10]
      in sign @ replicate (5 - length sign - length body) 48 @ body)"

text \<open>
  A comprehension whose element expression may raise: the elements are computed from
  left to right and the first exception ends the evaluation.
\<close>

fun traverse :: "('a \<Rightarrow> error + 'b) \<Rightarrow> 'a list \<Rightarrow> error + 'b list" where
  "traverse f [] = Inr []"
| "traverse f (x # xs) =
     (case f x of
        Inl e \<Rightarrow> Inl e
      | Inr y \<Rightarrow> (case traverse f xs of Inl e \<Rightarrow> Inl e | Inr ys \<Rightarrow> Inr (y # ys)))"

text \<open>
  \<open>sorted(xs, key=k, reverse=True)\<close>: descending by key, and stable (elements with equal
  keys keep their order). The insertion sort of the library is stable, and negating the
  key turns it around.
\<close>

definition sorted_reverse :: "('a \<Rightarrow> rat) \<Rightarrow> 'a list \<Rightarrow> 'a list" where
  "sorted_reverse k xs = sort_key (\<lambda>r. - k r) xs"

section \<open>graphics_list_formatter: the progress bar\<close>

text \<open>
  \<open>Symbol.get_symbols(version)\<close> looks the member \<open>VERSION_<version>\<close> of the
  enumeration up; a version other than 1, 2 or 3 raises \<open>KeyError\<close>. Every glyph is a
  string of one code point.
\<close>

definition get_symbols :: "int \<Rightarrow> error + (pystr \<times> pystr)" where
  "get_symbols version =
     (if version = 1 then Inr ([0x2588], [0x2591])
      else if version = 2 then Inr ([0x28FF], [0x28C0])
      else if version = 3 then Inr ([0x2B1B], [0x2B1C])
      else Inl KeyError)"

text \<open>
  \<open>make_graph(percent)\<close>. \<open>EM.SYMBOL_VERSION\<close> is configuration read from the
  environment and is a parameter here. The division by four is exact on floats.
\<close>

definition make_graph :: "int \<Rightarrow> rat \<Rightarrow> error + pystr" where
  "make_graph symbol_version percent =
     (case get_symbols symbol_version of
        Inl e \<Rightarrow> Inl e
      | Inr (done_block, empty_block) \<Rightarrow>
          (let percent_quart = py_round (percent / 4)
           in Inr (py_repeat done_block percent_quart @ py_repeat empty_block (25 - percent_quart))))"

section \<open>graphics_list_formatter: the list of rows\<close>

text \<open>
  One element of the comprehension of line 76: the row of a measure \<open>(n, t, p)\<close>. The name
  is cut to 25 characters and padded; the text is padded only.
\<close>

definition format_row :: "int \<Rightarrow> pystr \<times> pystr \<times> rat \<Rightarrow> error + pystr" where
  "format_row symbol_version r =
     (case r of (n, t, p) \<Rightarrow>
        (case make_graph symbol_version p of
           Inl e \<Rightarrow> Inl e
         | Inr graph \<Rightarrow>
             Inr (slice_to n 25 @ py_repeat (ascii '' '') (25 - int (length n))
                  @ t @ py_repeat (ascii '' '') (20 - int (length t))
                  @ graph @ ascii ''   '' @ format_05_2f p @ ascii '' % '')))"

text \<open>
  Lines 74 and 75 of \<open>make_list\<close>: the three sequences are zipped (\<open>zip\<close> stops at the
  shortest), the slice \<open>data[:top_num]\<close> is taken, and only then the slice is sorted.
\<close>

definition top_data :: "pystr list \<Rightarrow> pystr list \<Rightarrow> rat list \<Rightarrow> int \<Rightarrow> bool \<Rightarrow> (pystr \<times> pystr \<times> rat) list" where
  "top_data names texts percents top_num do_sort =
     (let data = zip names (zip texts percents)
      in if do_sort then sorted_reverse (\<lambda>record. snd (snd record)) (slice_to data top_num)
         else slice_to data top_num)"

text \<open>
  \<open>make_list(names=.., texts=.., percents=.., top_num=.., sort=..)\<close>. The \<open>data\<close>
  argument of the source only supplies the three lists (the values under the keys
  \<open>name\<close>, \<open>text\<close> and \<open>percent\<close> of each dictionary) when they are not given; the
  model starts from the three lists.
\<close>

definition make_list :: "int \<Rightarrow> pystr list \<Rightarrow> pystr list \<Rightarrow> rat list \<Rightarrow> int \<Rightarrow> bool \<Rightarrow> error + pystr" where
  "make_list symbol_version names texts percents top_num do_sort =
     (case traverse (format_row symbol_version) (top_data names texts percents top_num do_sort) of
        Inl e \<Rightarrow> Inl e
      | Inr data_list \<Rightarrow> Inr (py_join (ascii ''\<newline>'') data_list))"

section \<open>Float arithmetic of the percentages\<close>

text \<open>
  \<open>ilog2 x\<close> is the binary exponent of a positive rational: the integer \<open>k\<close> with
  \<open>2 ^ k \<le> x < 2 ^ (k + 1)\<close>, computed from the bit lengths of numerator and denominator.
\<close>

definition ilog2 :: "rat \<Rightarrow> int" where
  "ilog2 x =
     (case quotient_of x of (a, b) \<Rightarrow>
        (let d = bitlen a - bitlen b
         in if 2 powi d \<le> x then d else d - 1))"

text \<open>
  The binary64 value nearest to a rational (ties to the even significand): the
  significand has 53 bits, and the exponent of its last bit is at least \<open>-1074\<close>
  (subnormal numbers). The result is finite when it does not exceed \<open>double_max\<close>.
\<close>

definition round_double :: "rat \<Rightarrow> rat" where
  "round_double x =
     (if x = 0 then 0
      else (let e = max (ilog2 \<bar>x\<bar> - 52) (- 1074)
            in sgn x * of_int (py_round (\<bar>x\<bar> / 2 powi e)) * 2 powi e))"

definition double_max :: rat where
  "double_max = (2 ^ 53 - 1) * 2 ^ 971"

text \<open>
  \<open>round(x, 2)\<close> on a float: the exact value is rounded to two decimals (ties to even) and
  the result is the float nearest to that decimal number.
\<close>

definition py_round2 :: "rat \<Rightarrow> rat" where
  "py_round2 x = round_double (of_int (py_round (x * 100)) / 100)"

text \<open>
  The expression \<open>round(count / total * 100, 2)\<close> of lines 114, 121 and 144, on an
  integer count and an integer total. The true division of two integers is correctly rounded and raises
  \<open>ZeroDivisionError\<close> on a zero divisor and \<open>OverflowError\<close> when the quotient is too
  large for a float; the product by 100 is rounded again. A product beyond the largest
  float is the float infinity in Python, which no rational stands for: the model reports
  it as \<open>OverflowError\<close>, which is what the first use of the value (\<open>round\<close> in
  \<open>make_graph\<close>) raises.
\<close>

definition percent :: "int \<Rightarrow> int \<Rightarrow> error + rat" where
  "percent cnt total_count =
     (if total_count = 0 then Inl ZeroDivisionError
      else (let q = round_double (of_int cnt / of_int total_count)
            in if double_max < \<bar>q\<bar> then Inl OverflowError
               else (let m = round_double (q * 100)
                     in if double_max < \<bar>m\<bar> then Inl OverflowError else Inr (py_round2 m))))"

section \<open>graphics_list_formatter: commits by time of day and day of week\<close>

text \<open>
  The localized commit date: \<open>date.hour\<close> and \<open>date.isoweekday()\<close>. Parsing the timestamp
  and converting it to the user's time zone is the work of \<open>datetime\<close> and \<open>pytz\<close>; the
  model starts from the localized values (an hour in \<open>0..23\<close>, a weekday in \<open>1..7\<close>).
\<close>

record commit_date =
  hour :: int
  isoweekday :: int

text \<open>\<open>xs[i] += 1\<close> on a list: a negative index counts from the end, an index out of range raises.\<close>

definition list_incr :: "int list \<Rightarrow> int \<Rightarrow> error + int list" where
  "list_incr xs i =
     (if i < - int (length xs) \<or> int (length xs) \<le> i then Inl IndexError
      else (let k = nat (if i < 0 then int (length xs) + i else i)
            in Inr (xs[k := xs ! k + 1])))"

text \<open>The inner loop of lines 101 to 106, over the commits of one repository.\<close>

fun count_dates :: "int list \<times> int list \<Rightarrow> commit_date list \<Rightarrow> error + (int list \<times> int list)" where
  "count_dates (day_times, week_days) [] = Inr (day_times, week_days)"
| "count_dates (day_times, week_days) (date # dates) =
     (case list_incr day_times (hour date div 6) of
        Inl e \<Rightarrow> Inl e
      | Inr day_times' \<Rightarrow>
          (case list_incr week_days (isoweekday date - 1) of
             Inl e \<Rightarrow> Inl e
           | Inr week_days' \<Rightarrow> count_dates (day_times', week_days') dates))"

text \<open>
  The outer loop of lines 95 to 106. Each element is the answer of the query for one
  repository (forks are filtered out before): \<open>None\<close> when the repository or its default
  branch is missing, and the loop continues; otherwise the commit dates.
\<close>

fun count_repos :: "int list \<times> int list \<Rightarrow> commit_date list option list \<Rightarrow> error + (int list \<times> int list)" where
  "count_repos s [] = Inr s"
| "count_repos s (None # repos) = count_repos s repos"
| "count_repos s (Some committed_dates # repos) =
     (case count_dates s committed_dates of
        Inl e \<Rightarrow> Inl e
      | Inr s' \<Rightarrow> count_repos s' repos)"

text \<open>Lines 92 to 106: the two arrays of counters after all commits are counted.\<close>

definition count_commits :: "commit_date list option list \<Rightarrow> error + (int list \<times> int list)" where
  "count_commits repos = count_repos (replicate 4 0, replicate 7 0) repos"

text \<open>Line 110: \<open>day_times[1:] + day_times[:1]\<close>.\<close>

definition rotate_day_times :: "int list \<Rightarrow> int list" where
  "rotate_day_times day_times = drop 1 day_times @ take 1 day_times"

definition DAY_TIME_EMOJI :: "pystr list" where
  "DAY_TIME_EMOJI = [[0x1F31E], [0x1F306], [0x1F303], [0x1F319]]"

definition DAY_TIME_NAMES :: "string list" where
  "DAY_TIME_NAMES = [''Morning'', ''Daytime'', ''Evening'', ''Night'']"

definition WEEK_DAY_NAMES :: "string list" where
  "WEEK_DAY_NAMES = [''Monday'', ''Tuesday'', ''Wednesday'', ''Thursday'', ''Friday'', ''Saturday'', ''Sunday'']"

text \<open>The three backquotes that open and close a code block.\<close>

definition fence :: pystr where
  "fence = [96, 96, 96]"

text \<open>\<open>xs.index(max(xs))\<close> on a list of numbers: the first position of the largest element.\<close>

fun index_of_max :: "rat list \<Rightarrow> error + nat" where
  "index_of_max [] = Inl ValueError"
| "index_of_max (x # xs) =
     Inr (fst (foldl (\<lambda>(i, best) (j, y). if best < y then (j, y) else (i, best)) (0, x) (zip [1..<Suc (length xs)] xs)))"

text \<open>
  Lines 108 to 116 without the loop: the block of the times of day, from the raw
  counters. \<open>translate\<close> is \<open>LM.t\<close>; the translations are not part of the sources and are
  a parameter, as are the flags of the environment. The sum is taken before the rotation.
\<close>

definition day_time_stats :: "(string \<Rightarrow> pystr) \<Rightarrow> int \<Rightarrow> int list \<Rightarrow> error + pystr" where
  "day_time_stats translate symbol_version raw_day_times =
     (let sum_day = sum_list raw_day_times;
          day_times = rotate_day_times raw_day_times;
          dt_names = map (\<lambda>i. DAY_TIME_EMOJI ! i @ ascii '' '' @ translate (DAY_TIME_NAMES ! i)) [0..<length day_times];
          dt_texts = map (\<lambda>day_time. str_int day_time @ ascii '' commits'') day_times
      in case traverse (\<lambda>day_time. percent day_time sum_day) day_times of
           Inl e \<Rightarrow> Inl e
         | Inr dt_percents \<Rightarrow>
            (let title = (if sum_list (take 2 day_times) \<ge> sum_list (take 2 (drop 2 day_times))
                          then translate ''I am an Early'' else translate ''I am a Night'')
             in case make_list symbol_version dt_names dt_texts dt_percents 7 False of
                  Inl e \<Rightarrow> Inl e
                | Inr dt_list \<Rightarrow>
                    Inr (ascii ''**'' @ title @ ascii ''** \<newline>\<newline>'' @ fence @ ascii ''text\<newline>''
                         @ dt_list @ ascii ''\<newline>'' @ fence @ ascii ''\<newline>'')))"

text \<open>
  Lines 119 to 123: the block of the days of the week. \<open>translate_with key arg\<close> is
  \<open>LM.t(key) % arg\<close>.
\<close>

definition week_day_stats :: "(string \<Rightarrow> pystr) \<Rightarrow> (string \<Rightarrow> pystr \<Rightarrow> pystr) \<Rightarrow> int \<Rightarrow> int list \<Rightarrow> error + pystr" where
  "week_day_stats translate translate_with symbol_version week_days =
     (let sum_week = sum_list week_days;
          wd_names = map translate WEEK_DAY_NAMES;
          wd_texts = map (\<lambda>week_day. str_int week_day @ ascii '' commits'') week_days
      in case traverse (\<lambda>week_day. percent week_day sum_week) week_days of
           Inl e \<Rightarrow> Inl e
         | Inr wd_percents \<Rightarrow>
            (case index_of_max wd_percents of
               Inl e \<Rightarrow> Inl e
             | Inr k \<Rightarrow>
                (let title = translate_with ''I am Most Productive on'' (wd_names ! k)
                 in case make_list symbol_version wd_names wd_texts wd_percents 7 False of
                      Inl e \<Rightarrow> Inl e
                    | Inr wd_list \<Rightarrow>
                        Inr ([0x1F4C5] @ ascii '' **'' @ title @ ascii ''** \<newline>\<newline>'' @ fence
                             @ ascii ''text\<newline>'' @ wd_list @ ascii ''\<newline>'' @ fence @ ascii ''\<newline>''))))"

text \<open>\<open>make_commit_day_time_list\<close>, from the answers of the queries on.\<close>

definition make_commit_day_time_list ::
  "(string \<Rightarrow> pystr) \<Rightarrow> (string \<Rightarrow> pystr \<Rightarrow> pystr) \<Rightarrow> int \<Rightarrow> bool \<Rightarrow> commit_date list option list \<Rightarrow> error + pystr" where
  "make_commit_day_time_list translate translate_with symbol_version show_days_of_week repos =
     (case count_commits repos of
        Inl e \<Rightarrow> Inl e
      | Inr (raw_day_times, week_days) \<Rightarrow>
         (case day_time_stats translate symbol_version raw_day_times of
            Inl e \<Rightarrow> Inl e
          | Inr stats \<Rightarrow>
             (if show_days_of_week
              then (case week_day_stats translate translate_with symbol_version week_days of
                      Inl e \<Rightarrow> Inl e
                    | Inr week_stats \<Rightarrow> Inr (stats @ week_stats))
              else Inr stats)))"

section \<open>graphics_list_formatter: languages per repository\<close>

text \<open>
  A \<open>dict\<close> keeps its keys in insertion order: an association list in which storing under
  an existing key keeps the key's place and a new key goes to the end.
\<close>

fun dict_set :: "('k \<times> 'v) list \<Rightarrow> 'k \<Rightarrow> 'v \<Rightarrow> ('k \<times> 'v) list" where
  "dict_set [] k v = [(k, v)]"
| "dict_set ((k', v') # d) k v = (if k' = k then (k, v) # d else (k', v') # dict_set d k v)"

definition dict_get :: "('k \<times> 'v) list \<Rightarrow> 'k \<Rightarrow> 'v \<Rightarrow> 'v" where
  "dict_get d k default_value = (case map_of d k of None \<Rightarrow> default_value | Some v \<Rightarrow> v)"

text \<open>
  The loop of lines 137 to 140. The inner dictionary has the one key \<open>count\<close>, so the
  model stores the count itself.
\<close>

fun count_languages :: "(pystr \<times> int) list \<Rightarrow> pystr list \<Rightarrow> (pystr \<times> int) list" where
  "count_languages language_count [] = language_count"
| "count_languages language_count (language # languages) =
     count_languages (dict_set language_count language (dict_get language_count language 0 + 1)) languages"

text \<open>
  \<open>max(xs, key=k)\<close>: \<open>ValueError\<close> on an empty sequence, otherwise the first element with
  the largest key.
\<close>

fun py_max_key :: "('a \<Rightarrow> int) \<Rightarrow> 'a list \<Rightarrow> error + 'a" where
  "py_max_key k [] = Inl ValueError"
| "py_max_key k (x # xs) = Inr (foldl (\<lambda>best y. if k best < k y then y else best) x xs)"

text \<open>
  \<open>make_language_per_repo_list(repositories)\<close>. Each element of \<open>repositories\<close> is the name
  of the primary language of a repository node, or \<open>None\<close>. \<open>mostly_code_in x\<close> is
  \<open>LM.t('I Mostly Code in') % x\<close>. The statements run in the order of the source: the
  lists of lines 142 to 144, then \<open>max\<close> (line 146), then the title with its test of the
  length (line 147), then \<open>make_list\<close> with its defaults \<open>top_num=5\<close> and \<open>sort=True\<close>.
  Indexing \<open>language_count\<close> by one of its own keys cannot fail, so texts and percents
  are computed from the items.
\<close>

definition make_language_per_repo_list :: "(pystr \<Rightarrow> pystr) \<Rightarrow> int \<Rightarrow> pystr option list \<Rightarrow> error + pystr" where
  "make_language_per_repo_list mostly_code_in symbol_version repositories =
     (let repos_with_language = concat (map (\<lambda>repo. case repo of None \<Rightarrow> [] | Some language \<Rightarrow> [language]) repositories);
          language_count = count_languages [] repos_with_language;
          names = map fst language_count;
          texts = map (\<lambda>(lang, n). str_int n @ ascii '' '' @ (if n = 1 then ascii ''repo'' else ascii ''repos'')) language_count
      in case traverse (\<lambda>(lang, n). percent n (int (length repos_with_language))) language_count of
           Inl e \<Rightarrow> Inl e
         | Inr percents \<Rightarrow>
            (case py_max_key (\<lambda>x. dict_get language_count x 0) names of
               Inl e \<Rightarrow> Inl e
             | Inr top_language \<Rightarrow>
                (let title = (if length repos_with_language > 0
                              then ascii ''**'' @ mostly_code_in top_language @ ascii ''** \<newline>\<newline>'' else [])
                 in case make_list symbol_version names texts percents 5 True of
                      Inl e \<Rightarrow> Inl e
                    | Inr rows \<Rightarrow>
                        Inr (title @ fence @ ascii ''text\<newline>'' @ rows @ ascii ''\<newline>'' @ fence @ ascii ''\<newline>\<newline>''))))"

section \<open>manager_github: the section of the README\<close>

text \<open>
  The two comments that delimit the section, from \<open>EM.SECTION_NAME\<close> (configuration, a
  parameter here; its default is \<open>waka\<close>).
\<close>

definition START_COMMENT :: "pystr \<Rightarrow> pystr" where
  "START_COMMENT section_name = ascii ''<!--START_SECTION:'' @ section_name @ ascii ''-->''"

definition END_COMMENT :: "pystr \<Rightarrow> pystr" where
  "END_COMMENT section_name = ascii ''<!--END_SECTION:'' @ section_name @ ascii ''-->''"

text \<open>
  The pattern \<open>_README_REGEX\<close> is the start comment, \<open>[\s\S]+\<close> (one or more characters of
  any kind, as many as possible) and the end comment. The characters of the two comments
  other than the section name stand for themselves in a regular expression. The section
  name is pasted into the pattern as it is; the model covers the names whose characters
  stand for themselves as well (\<open>plain_name\<close>), as the default does.
\<close>

datatype regex_item = Chr nat | AnyPlus

definition regex_special :: pystr where
  "regex_special = ascii ''.^$*+?{}[]|()'' @ [0x5C]"

definition plain_name :: "pystr \<Rightarrow> bool" where
  "plain_name section_name = list_all (\<lambda>c. c \<notin> set regex_special) section_name"

definition README_REGEX :: "pystr \<Rightarrow> regex_item list" where
  "README_REGEX section_name =
     map Chr (START_COMMENT section_name) @ [AnyPlus] @ map Chr (END_COMMENT section_name)"

text \<open>
  The backtracking matcher at one position: the length of the match of the items at the
  start of the string. A repetition first tries to take one more character and gives
  characters back only when the rest of the pattern fails.
\<close>

fun match_here :: "regex_item list \<Rightarrow> pystr \<Rightarrow> nat option" where
  "match_here [] s = Some 0"
| "match_here (Chr c # r) [] = None"
| "match_here (Chr c # r) (x # s) = (if x = c then map_option Suc (match_here r s) else None)"
| "match_here (AnyPlus # r) [] = None"
| "match_here (AnyPlus # r) (x # s) =
     (case match_here (AnyPlus # r) s of
        Some n \<Rightarrow> Some (Suc n)
      | None \<Rightarrow> map_option Suc (match_here r s))"

text \<open>
  The replacement string of \<open>re.sub\<close> is a template: \<open>re\<close> compiles it before it searches,
  unless the string has no backslash at all. The compiled template is a sequence of
  literal characters and references to groups; the pattern has no group but the whole
  match, group 0. These are the rules of \<open>parse_template\<close> in \<open>re\<close> (Python 3.12):
  \<^item> a backslash at the end is an error;
  \<^item> \<open>\g<name>\<close> is group 0 when the name is a string of zeros, and an error otherwise
    (a missing bracket, an empty name, a group that does not exist);
  \<^item> \<open>\0\<close> with up to two octal digits after it is the character of that octal code;
  \<^item> another digit starts an octal code of three digits (at most \<open>0o377\<close>) or else a
    reference to a group from 1 on, which the pattern does not have: an error;
  \<^item> \<open>\a \b \f \n \r \t \v \\\<close> are the control characters and the backslash;
  \<^item> a backslash before another ASCII letter is an error;
  \<^item> a backslash before any other character stays, with that character.
  \<open>ReError\<close> stands for the exception of the template compiler (\<open>re.error\<close>, and
  \<open>IndexError\<close> for a name that is an identifier).
\<close>

datatype template_item = Lit nat | Group0

definition is_digit :: "nat \<Rightarrow> bool" where
  "is_digit c = (48 \<le> c \<and> c \<le> 57)"

definition is_octdigit :: "nat \<Rightarrow> bool" where
  "is_octdigit c = (48 \<le> c \<and> c \<le> 55)"

definition is_ascii_letter :: "nat \<Rightarrow> bool" where
  "is_ascii_letter c = ((65 \<le> c \<and> c \<le> 90) \<or> (97 \<le> c \<and> c \<le> 122))"

definition escape_char :: "nat \<Rightarrow> nat option" where
  "escape_char c =
     (if c = 97 then Some 7 else if c = 98 then Some 8 else if c = 102 then Some 12
      else if c = 110 then Some 10 else if c = 114 then Some 13 else if c = 116 then Some 9
      else if c = 118 then Some 11 else if c = 0x5C then Some 0x5C else None)"

definition octal_value :: "pystr \<Rightarrow> nat" where
  "octal_value ds = foldl (\<lambda>v d. 8 * v + (d - 48)) 0 ds"

definition prepend :: "template_item list \<Rightarrow> error + template_item list \<Rightarrow> error + template_item list" where
  "prepend items r = (case r of Inl e \<Rightarrow> Inl e | Inr rest \<Rightarrow> Inr (items @ rest))"

function parse_template :: "pystr \<Rightarrow> error + template_item list" where
  "parse_template [] = Inr []"
| "parse_template (c # cs) =
     (if c \<noteq> 0x5C then prepend [Lit c] (parse_template cs)
      else (case cs of
              [] \<Rightarrow> Inl ReError
            | d # ds \<Rightarrow>
               (if d = 103 then
                  (case ds of
                     [] \<Rightarrow> Inl ReError
                   | b # ns \<Rightarrow>
                      (if b \<noteq> 60 then Inl ReError
                       else if dropWhile (\<lambda>x. x \<noteq> 62) ns = [] then Inl ReError
                       else if takeWhile (\<lambda>x. x \<noteq> 62) ns = [] then Inl ReError
                       else if list_all (\<lambda>x. x = 48) (takeWhile (\<lambda>x. x \<noteq> 62) ns)
                         then prepend [Group0] (parse_template (tl (dropWhile (\<lambda>x. x \<noteq> 62) ns)))
                       else Inl ReError))
                else if d = 48 then
                  prepend [Lit (octal_value (takeWhile is_octdigit (take 2 ds)) mod 256)]
                    (parse_template (drop (length (takeWhile is_octdigit (take 2 ds))) ds))
                else if is_digit d then
                  (case ds of
                     d2 # d3 # ds3 \<Rightarrow>
                       (if is_octdigit d \<and> is_octdigit d2 \<and> is_octdigit d3
                        then (if 255 < octal_value [d, d2, d3] then Inl ReError
                              else prepend [Lit (octal_value [d, d2, d3])] (parse_template ds3))
                        else Inl ReError)
                   | _ \<Rightarrow> Inl ReError)
                else (case escape_char d of
                        Some e \<Rightarrow> prepend [Lit e] (parse_template ds)
                      | None \<Rightarrow>
                          (if is_ascii_letter d then Inl ReError
                           else prepend [Lit 0x5C, Lit d] (parse_template ds))))))"
  by pat_completeness auto
termination
proof (relation "measure length")
  fix c d b :: nat and cs ds ns :: "nat list"
  assume "cs = d # ds" "ds = b # ns"
  have "length (tl (dropWhile (\<lambda>x. x \<noteq> 62) ns)) \<le> length ns"
    using length_dropWhile_le [of "\<lambda>x. x \<noteq> 62" ns] by simp
  then show "(tl (dropWhile (\<lambda>x. x \<noteq> 62) ns), c # cs) \<in> measure length"
    using \<open>cs = d # ds\<close> \<open>ds = b # ns\<close> by simp
qed auto

text \<open>The expansion of a compiled template for a match: group 0 is the matched text.\<close>

definition expand_template :: "template_item list \<Rightarrow> pystr \<Rightarrow> pystr" where
  "expand_template template matched =
     concat (map (\<lambda>item. case item of Lit c \<Rightarrow> [c] | Group0 \<Rightarrow> matched) template)"

text \<open>
  The scan of \<open>re.sub\<close> over the string, from left to right: at a position that is not
  inside the previous match the pattern is tried; a match is replaced by the expansion of
  the template and the scan goes on behind it; otherwise the character is copied.
  \<open>skip\<close> counts the characters of the current match that are still to pass. The
  pattern of the README matches no empty string, so the rule of \<open>re\<close> for empty matches
  is not modelled.
\<close>

fun sub_scan :: "regex_item list \<Rightarrow> template_item list \<Rightarrow> nat \<Rightarrow> pystr \<Rightarrow> pystr" where
  "sub_scan r template skip [] = []"
| "sub_scan r template (Suc k) (x # xs) = sub_scan r template k xs"
| "sub_scan r template 0 (x # xs) =
     (case match_here r (x # xs) of
        Some (Suc n) \<Rightarrow> expand_template template (take (Suc n) (x # xs)) @ sub_scan r template n xs
      | _ \<Rightarrow> x # sub_scan r template 0 xs)"

text \<open>\<open>re.sub(pattern, repl, string)\<close>: the template is compiled first, then the string is scanned.\<close>

definition re_sub :: "regex_item list \<Rightarrow> pystr \<Rightarrow> pystr \<Rightarrow> error + pystr" where
  "re_sub pattern repl s =
     (case parse_template repl of
        Inl e \<Rightarrow> Inl e
      | Inr template \<Rightarrow> Inr (sub_scan pattern template 0 s))"

text \<open>\<open>GitHubManager._generate_new_readme(stats)\<close>, on the contents of the README read before.\<close>

definition generate_new_readme :: "pystr \<Rightarrow> pystr \<Rightarrow> pystr \<Rightarrow> error + pystr" where
  "generate_new_readme section_name readme_contents stats =
     (let readme_stats = START_COMMENT section_name @ ascii ''\<newline>'' @ stats @ ascii ''\<newline>''
                         @ END_COMMENT section_name
      in re_sub (README_REGEX section_name) readme_stats readme_contents)"

text \<open>
  \<open>GitHubManager.update_readme(stats)\<close>: the pair of the contents of the README in the
  repository after the call and the returned flag. The file is written (\<open>update_file\<close>)
  only when the new text differs from the old one.
\<close>

definition update_readme :: "pystr \<Rightarrow> pystr \<Rightarrow> pystr \<Rightarrow> error + (pystr \<times> bool)" where
  "update_readme section_name readme_contents stats =
     (case generate_new_readme section_name readme_contents stats of
        Inl e \<Rightarrow> Inl e
      | Inr new_readme \<Rightarrow>
          (if new_readme \<noteq> readme_contents then Inr (new_readme, True)
           else Inr (readme_contents, False)))"

section \<open>Rounding\<close>

lemma py_round_of_int [simp]: "py_round (of_int n) = n"
  by (simp add: py_round_def)

lemma py_round_numeral [simp]: "py_round (numeral k) = numeral k"
  using py_round_of_int [of "numeral k"] by simp

lemma py_round_0 [simp]: "py_round 0 = 0"
  using py_round_of_int [of 0] by simp

lemma py_round_1 [simp]: "py_round 1 = 1"
  using py_round_of_int [of 1] by simp

lemma py_round_cases:
  "py_round x = \<lfloor>x\<rfloor> \<or> (py_round x = \<lfloor>x\<rfloor> + 1 \<and> 1 / 2 \<le> x - of_int \<lfloor>x\<rfloor>)"
  by (auto simp: py_round_def Let_def)

text \<open>Rounding never crosses an integer: it is monotone against integer bounds.\<close>

lemma py_round_le: "x \<le> of_int n \<Longrightarrow> py_round x \<le> n"
proof -
  assume le: "x \<le> of_int n"
  then have fl: "\<lfloor>x\<rfloor> \<le> n" by (simp add: floor_le_iff)
  consider "py_round x = \<lfloor>x\<rfloor>" | "py_round x = \<lfloor>x\<rfloor> + 1" "1 / 2 \<le> x - of_int \<lfloor>x\<rfloor>"
    using py_round_cases by blast
  then show ?thesis
  proof cases
    case 1 with fl show ?thesis by simp
  next
    case 2
    have "\<lfloor>x\<rfloor> \<noteq> n"
    proof
      assume "\<lfloor>x\<rfloor> = n"
      with 2(2) le show False by simp
    qed
    with fl 2(1) show ?thesis by simp
  qed
qed

lemma py_round_ge: "of_int n \<le> x \<Longrightarrow> n \<le> py_round x"
proof -
  assume "of_int n \<le> x"
  then have "n \<le> \<lfloor>x\<rfloor>" by (simp add: le_floor_iff)
  with py_round_cases [of x] show ?thesis by auto
qed

section \<open>The progress bar\<close>

lemma concat_replicate_single: "concat (replicate n [x]) = replicate n x"
  by (induction n) simp_all

lemma get_symbols_glyphs:
  "get_symbols v = Inr (d, e) \<Longrightarrow> \<exists>f g. d = [f] \<and> e = [g] \<and> f \<noteq> g"
  by (auto simp: get_symbols_def split: if_splits)

lemma make_graph_valid:
  assumes "get_symbols v = Inr ([f], [e])"
  shows "make_graph v p = Inr (replicate (nat (py_round (p / 4))) f @ replicate (nat (25 - py_round (p / 4))) e)"
  using assms by (simp add: make_graph_def py_repeat_def concat_replicate_single Let_def)

lemma make_graph_length:
  assumes "get_symbols v = Inr (d, e)" "0 \<le> p" "p \<le> 100"
  shows "\<exists>bar. make_graph v p = Inr bar \<and> length bar = 25"
proof -
  obtain f g where fg: "d = [f]" "e = [g]" using get_symbols_glyphs [OF assms(1)] by blast
  have "0 \<le> py_round (p / 4)" using assms(2) by (intro py_round_ge) simp
  moreover have "py_round (p / 4) \<le> 25" using assms(3) by (intro py_round_le) simp
  ultimately show ?thesis
    using make_graph_valid [of v f g p] assms(1) fg by simp
qed

text \<open>
  Claim C4. For a symbol version of the enumeration and a percent \<open>p\<close> between 0 and 100,
  \<open>make_graph\<close> returns a bar of exactly 25 characters: \<open>round(p / 4)\<close> filled glyphs
  (Python's rounding, ties to even) followed by empty glyphs in the remaining
  \<open>25 - round(p / 4)\<close> cells. At 100 the bar is 25 filled glyphs, at 0 it is 25 empty
  glyphs.
\<close>

theorem make_graph_bar:
  assumes "get_symbols symbol_version = Inr ([filled_glyph], [empty_glyph])" and "0 \<le> p" and "p \<le> 100"
  shows "\<exists>bar. make_graph symbol_version p = Inr bar
           \<and> length bar = 25
           \<and> bar = replicate (nat (py_round (p / 4))) filled_glyph @ replicate (25 - nat (py_round (p / 4))) empty_glyph
           \<and> count_list bar filled_glyph = nat (py_round (p / 4))
           \<and> count_list bar empty_glyph = 25 - nat (py_round (p / 4))
           \<and> make_graph symbol_version 100 = Inr (replicate 25 filled_glyph)
           \<and> make_graph symbol_version 0 = Inr (replicate 25 empty_glyph)"
proof -
  have ne: "filled_glyph \<noteq> empty_glyph" using get_symbols_glyphs [OF assms(1)] by auto
  have lo: "0 \<le> py_round (p / 4)" using assms(2) by (intro py_round_ge) simp
  have hi: "py_round (p / 4) \<le> 25" using assms(3) by (intro py_round_le) simp
  have k: "nat (25 - py_round (p / 4)) = 25 - nat (py_round (p / 4))" using lo hi by simp
  have cnt: "count_list (replicate n a) a = n" for n and a :: nat
    by (induction n) simp_all
  have cnt2: "count_list (replicate n a) b = 0" if "a \<noteq> b" for n and a b :: nat
    using that by (induction n) simp_all
  show ?thesis
    using make_graph_valid [OF assms(1), of p] make_graph_valid [OF assms(1), of 100]
      make_graph_valid [OF assms(1), of 0] ne lo hi k
    by (simp add: cnt cnt2)
qed

theorem make_graph_bar_witness:
  "get_symbols 1 = Inr ([0x2588], [0x2591]) \<and> (0::rat) \<le> 48 \<and> (48::rat) \<le> 100
   \<and> (\<exists>bar. make_graph 1 48 = Inr bar \<and> length bar = 25
          \<and> bar = replicate 12 0x2588 @ replicate 13 0x2591
          \<and> count_list bar 0x2588 = 12 \<and> count_list bar 0x2591 = 13)"
proof -
  have g: "get_symbols 1 = Inr ([0x2588], [0x2591])" by (simp add: get_symbols_def)
  show ?thesis
    using make_graph_bar [OF g, of 48] g by auto
qed

section \<open>The list of rows\<close>

lemma traverse_all_Inr:
  "(\<And>x. x \<in> set xs \<Longrightarrow> f x = Inr (g x)) \<Longrightarrow> traverse f xs = Inr (map g xs)"
  by (induction xs) simp_all

lemma set_slice_to: "set (slice_to xs k) \<subseteq> set xs"
  by (auto simp: slice_to_def dest: in_set_takeD)

lemma set_top_data:
  "set (top_data names texts percents top_num do_sort) \<subseteq> set (zip names (zip texts percents))"
  using set_slice_to [of "zip names (zip texts percents)" top_num]
  by (auto simp: top_data_def sorted_reverse_def Let_def)


lemma format_row_valid:
  assumes "get_symbols v = Inr ([f], [e])"
  shows "format_row v (n, t, p) =
     Inr (slice_to n 25 @ py_repeat (ascii '' '') (25 - int (length n))
          @ t @ py_repeat (ascii '' '') (20 - int (length t))
          @ (replicate (nat (py_round (p / 4))) f @ replicate (nat (25 - py_round (p / 4))) e)
          @ ascii ''   '' @ format_05_2f p @ ascii '' % '')"
  by (simp add: format_row_def make_graph_valid [OF assms])

lemma make_list_returns:
  assumes "get_symbols v = Inr g"
  shows "\<exists>rows. traverse (format_row v) xs = Inr rows \<and> length rows = length xs"
proof -
  obtain d0 e0 where "g = (d0, e0)" by (cases g)
  then obtain f e where g: "get_symbols v = Inr ([f], [e])"
    using get_symbols_glyphs [of v d0 e0] assms by auto
  have "\<exists>row. format_row v r = Inr row" for r
    by (cases r) (simp add: format_row_valid [OF g])
  then obtain h where "\<And>r. format_row v r = Inr (h r)" by metis
  then have "traverse (format_row v) xs = Inr (map h xs)" by (intro traverse_all_Inr) simp
  then show ?thesis by simp
qed




lemma sorted_reverse_props:
  "mset (sorted_reverse k xs) = mset xs"
  "length (sorted_reverse k xs) = length xs"
  "sorted_wrt (\<lambda>a b. k b \<le> k a) (sorted_reverse k xs)"
  "filter (\<lambda>r. k r = v) (sorted_reverse k xs) = filter (\<lambda>r. k r = v) xs"
proof -
  show "mset (sorted_reverse k xs) = mset xs" "length (sorted_reverse k xs) = length xs"
    by (simp_all add: sorted_reverse_def)
  have "sorted (map (\<lambda>r. - k r) (sort_key (\<lambda>r. - k r) xs))" by (rule sorted_sort_key)
  then show "sorted_wrt (\<lambda>a b. k b \<le> k a) (sorted_reverse k xs)"
    by (simp add: sorted_reverse_def sorted_map)
  have "filter (\<lambda>r. - k r = - v) (sort_key (\<lambda>r. - k r) xs) = filter (\<lambda>r. - k r = - v) xs"
    by (rule sort_key_stable)
  then show "filter (\<lambda>r. k r = v) (sorted_reverse k xs) = filter (\<lambda>r. k r = v) xs"
    by (simp add: sorted_reverse_def)
qed

text \<open>
  Claim C6. \<open>make_list\<close> cuts the zipped entries to the first \<open>top_num\<close> before it sorts:
  for a limit that is not negative, the entries it renders are, as a multiset, exactly
  the first \<open>min(len(input), top_num)\<close> entries of the input; without sorting they are
  in input order; with sorting they are the same entries by descending percent, equal
  percents in input order. So an entry behind the window is never rendered, however
  large its percent. The rows are rendered from these entries in this order.
\<close>

theorem make_list_window:
  assumes "0 \<le> top_num"
    and "window = take (nat top_num) (zip names (zip texts percents))"
    and "shown = top_data names texts percents top_num do_sort"
  shows "mset shown = mset window
       \<and> length shown = min (length (zip names (zip texts percents))) (nat top_num)
       \<and> (\<not> do_sort \<longrightarrow> shown = window)
       \<and> (do_sort \<longrightarrow> sorted_wrt (\<lambda>a b. snd (snd b) \<le> snd (snd a)) shown
                     \<and> (\<forall>v. filter (\<lambda>r. snd (snd r) = v) shown = filter (\<lambda>r. snd (snd r) = v) window))
       \<and> make_list symbol_version names texts percents top_num do_sort
           = (case traverse (format_row symbol_version) shown of
                Inl e \<Rightarrow> Inl e
              | Inr rows \<Rightarrow> Inr (py_join (ascii ''\<newline>'') rows))"
proof -
  have w: "slice_to (zip names (zip texts percents)) top_num = window"
    using assms(1,2) by (simp add: slice_to_def)
  show ?thesis
  proof (cases do_sort)
    case True
    then have "shown = sorted_reverse (\<lambda>record. snd (snd record)) window"
      using assms(3) w by (simp add: top_data_def)
    then show ?thesis
      using True assms(2,3) sorted_reverse_props [where k = "\<lambda>record. snd (snd record)" and xs = window]
      by (simp add: make_list_def min.commute)
  next
    case False
    then have "shown = window" using assms(3) w by (simp add: top_data_def)
    then show ?thesis
      using False assms(2,3) by (simp add: make_list_def min.commute)
  qed
qed

theorem make_list_window_witness:
  "(0::int) \<le> 2
   \<and> top_data [ascii ''a'', ascii ''b'', ascii ''c''] [ascii ''x'', ascii ''y'', ascii ''z''] [10, 20, 90] 2 True
       = [(ascii ''b'', ascii ''y'', 20), (ascii ''a'', ascii ''x'', 10)]
   \<and> mset (top_data [ascii ''a'', ascii ''b'', ascii ''c''] [ascii ''x'', ascii ''y'', ascii ''z''] [10, 20, 90] 2 True)
       = mset (take (nat 2) (zip [ascii ''a'', ascii ''b'', ascii ''c''] (zip [ascii ''x'', ascii ''y'', ascii ''z''] [10, 20, 90])))
   \<and> sorted_wrt (\<lambda>a b. snd (snd b) \<le> snd (snd a))
        (top_data [ascii ''a'', ascii ''b'', ascii ''c''] [ascii ''x'', ascii ''y'', ascii ''z''] [10, 20, 90] 2 True)"
proof -
  have e: "top_data [ascii ''a'', ascii ''b'', ascii ''c''] [ascii ''x'', ascii ''y'', ascii ''z''] [10, 20, 90] 2 True
       = [(ascii ''b'', ascii ''y'', 20), (ascii ''a'', ascii ''x'', 10)]"
    by (simp add: top_data_def sorted_reverse_def slice_to_def)
  show ?thesis
    using make_list_window [of 2 _ "[ascii ''a'', ascii ''b'', ascii ''c'']" "[ascii ''x'', ascii ''y'', ascii ''z'']"
        "[10, 20, 90]" _ True, OF _ refl refl] e
    by simp
qed

lemma length_digits:
  "n < 10 \<Longrightarrow> length (digits n) = 1"
  "10 \<le> n \<Longrightarrow> n < 100 \<Longrightarrow> length (digits n) = 2"
  "100 \<le> n \<Longrightarrow> n < 1000 \<Longrightarrow> length (digits n) = 3"
proof -
  show one: "length (digits n) = 1" if "n < 10" for n
    using that by (simp add: digits.simps)
  show two: "length (digits n) = 2" if "10 \<le> n" "n < 100" for n
    using that one [of "n div 10"] by (subst digits.simps) simp
  show "length (digits n) = 3" if "100 \<le> n" "n < 1000"
    using that two [of "n div 10"] by (subst digits.simps) simp
qed

lemma py_round_hundred:
  assumes "0 \<le> p" "p \<le> 100"
  shows "0 \<le> py_round (p * 100)" "py_round (p * 100) \<le> 10000"
    "(py_round (p * 100) = 10000) = (19999 / 200 \<le> p)"
proof -
  show lo: "0 \<le> py_round (p * 100)" using assms(1) by (intro py_round_ge) simp
  show hi: "py_round (p * 100) \<le> 10000" using assms(2) by (intro py_round_le) simp
  show "(py_round (p * 100) = 10000) = (19999 / 200 \<le> p)"
  proof
    assume r: "py_round (p * 100) = 10000"
    show "19999 / 200 \<le> p"
    proof (rule ccontr)
      assume "\<not> 19999 / 200 \<le> p"
      then have lt: "p * 100 < 19999 / 2" by simp
      then have f: "\<lfloor>p * 100\<rfloor> \<le> 9999" by (simp add: floor_le_iff)
      from py_round_cases [of "p * 100"] r have "\<lfloor>p * 100\<rfloor> = 9999 \<and> 1 / 2 \<le> p * 100 - of_int \<lfloor>p * 100\<rfloor>"
        using f by auto
      with lt show False by simp
    qed
  next
    assume ge: "19999 / 200 \<le> p"
    then have x: "19999 / 2 \<le> p * 100" by simp
    then have f: "9999 \<le> \<lfloor>p * 100\<rfloor>" by (simp add: le_floor_iff)
    show "py_round (p * 100) = 10000"
    proof (cases "\<lfloor>p * 100\<rfloor> = 9999")
      case True
      then have "1 / 2 \<le> p * 100 - of_int \<lfloor>p * 100\<rfloor>" using x by simp
      with True show ?thesis by (auto simp: py_round_def Let_def)
    next
      case False
      with f have "10000 \<le> \<lfloor>p * 100\<rfloor>" by linarith
      then have "10000 \<le> py_round (p * 100)" using py_round_cases [of "p * 100"] by auto
      with hi show ?thesis by simp
    qed
  qed
qed

lemma length_format_05_2f:
  assumes "0 \<le> p" "p \<le> 100"
  shows "length (format_05_2f p) = (if 19999 / 200 \<le> p then 6 else 5)"
proof -
  define n where "n = nat (py_round (p * 100))"
  have abs: "\<bar>p\<bar> = p" using assms(1) by simp
  have n: "n \<le> 10000" "(n = 10000) = (19999 / 200 \<le> p)"
    using py_round_hundred [OF assms] by (auto simp: n_def)
  have len: "length (format_05_2f p) = (5 - (length (digits (n div 100)) + 3)) + (length (digits (n div 100)) + 3)"
    using assms(1) by (simp add: format_05_2f_def abs n_def [symmetric] Let_def ascii_def)
  have "n \<noteq> 10000 \<Longrightarrow> n div 100 < 100" using n(1) by simp
  then consider "n div 100 < 10" | "10 \<le> n div 100" "n div 100 < 100" | "n = 10000"
    by linarith
  then show ?thesis
  proof cases
    case 1
    then have "n \<noteq> 10000" by auto
    with 1 len n(2) show ?thesis by (simp add: length_digits(1))
  next
    case 2
    then have "n \<noteq> 10000" by auto
    with 2 len n(2) show ?thesis by (simp add: length_digits(2))
  next
    case 3
    with len n(2) show ?thesis by (simp add: length_digits(3))
  qed
qed

lemma length_format_row:
  assumes "get_symbols v = Inr (d, e)" "0 \<le> p" "p \<le> 100" "length t \<le> 20"
  shows "\<exists>row. format_row v (n, t, p) = Inr row \<and> length row = (if 19999 / 200 \<le> p then 82 else 81)"
proof -
  obtain bar where bar: "make_graph v p = Inr bar" "length bar = 25"
    using make_graph_length [OF assms(1-3)] by blast
  have name: "length (slice_to n 25 @ py_repeat (ascii '' '') (25 - int (length n))) = 25"
    by (simp add: slice_to_def py_repeat_def ascii_def length_concat sum_list_replicate)
  have tlen: "length (t @ py_repeat (ascii '' '') (20 - int (length t))) = 20"
    using assms(4) by (simp add: py_repeat_def ascii_def length_concat sum_list_replicate)
  show ?thesis
    using bar name tlen length_format_05_2f [OF assms(2,3)]
    by (simp add: format_row_def ascii_def)
qed

text \<open>
  Claim C3 says that every line of \<open>make_list\<close> is 82 characters wide. The row of
  \<open>Python\<close>, \<open>3 repos\<close> and 48 percent is 81 characters wide: the format \<open>05.2f\<close> makes
  the percent five characters wide, not six.
\<close>

theorem make_list_row_width_counterexample:
  "map_sum id length (make_list 1 [ascii ''Python''] [ascii ''3 repos''] [48] 5 True) = Inr 81"
  by (simp add: make_list_def top_data_def sorted_reverse_def slice_to_def format_row_def
      make_graph_def get_symbols_def py_repeat_def format_05_2f_def digits.simps ascii_def)

text \<open>
  Claim C3 as amended. With percents between 0 and 100 and texts of at most 20
  characters, every row of \<open>make_list\<close> is 81 characters wide (25 for the name, cut or
  padded, 20 for the padded text, 25 for the bar, 3 spaces, 5 for the percent and 3 for
  the suffix), and 82 characters wide when the percent prints as \<open>100.00\<close>, that is from
  \<open>99.995\<close> on.
\<close>

theorem make_list_row_widths:
  assumes "get_symbols symbol_version = Inr glyphs"
    and "\<forall>p \<in> set percents. 0 \<le> p \<and> p \<le> 100"
    and "\<forall>t \<in> set texts. length t \<le> 20"
    and "shown = top_data names texts percents top_num do_sort"
  shows "\<exists>rows. make_list symbol_version names texts percents top_num do_sort = Inr (py_join (ascii ''\<newline>'') rows)
           \<and> length rows = length shown
           \<and> (\<forall>i < length rows. length (rows ! i) = (if 19999 / 200 \<le> snd (snd (shown ! i)) then 82 else 81))"
proof -
  obtain d e where g: "get_symbols symbol_version = Inr (d, e)" using assms(1) by (cases glyphs) auto
  have each: "\<exists>row. format_row symbol_version r = Inr row \<and> length row = (if 19999 / 200 \<le> snd (snd r) then 82 else 81)"
    if "r \<in> set shown" for r
  proof -
    obtain n t p where r: "r = (n, t, p)" by (cases r)
    have "r \<in> set (zip names (zip texts percents))"
      using that set_top_data assms(4) by blast
    then have "(t, p) \<in> set (zip texts percents)"
      using r by (auto dest: set_zip_rightD)
    then have "t \<in> set texts" "p \<in> set percents"
      by (auto dest: set_zip_leftD set_zip_rightD)
    then show ?thesis
      using length_format_row [OF g, of p t n] assms(2,3) r by auto
  qed
  then obtain h where h: "\<And>r. r \<in> set shown \<Longrightarrow> format_row symbol_version r = Inr (h r) \<and> length (h r) = (if 19999 / 200 \<le> snd (snd r) then 82 else 81)"
    by metis
  then have "traverse (format_row symbol_version) shown = Inr (map h shown)"
    by (intro traverse_all_Inr) simp
  then have "make_list symbol_version names texts percents top_num do_sort = Inr (py_join (ascii ''\<newline>'') (map h shown))"
    using assms(4) by (simp add: make_list_def)
  moreover have "\<forall>i < length (map h shown). length (map h shown ! i) = (if 19999 / 200 \<le> snd (snd (shown ! i)) then 82 else 81)"
    using h by simp
  ultimately show ?thesis by (intro exI [of _ "map h shown"]) simp
qed

theorem make_list_row_widths_witness:
  "get_symbols 1 = Inr ([0x2588], [0x2591])
   \<and> list_all (\<lambda>p. (0::rat) \<le> p \<and> p \<le> 100) [48, 100]
   \<and> list_all (\<lambda>t. length t \<le> 20) [ascii ''3 repos'', ascii ''1 repo'']
   \<and> (\<exists>rows. make_list 1 [ascii ''Python'', ascii ''Go''] [ascii ''3 repos'', ascii ''1 repo''] [48, 100] 5 False
                 = Inr (py_join (ascii ''\<newline>'') rows)
          \<and> length rows = 2 \<and> length (rows ! 0) = 81 \<and> length (rows ! 1) = 82)"
proof -
  have g: "get_symbols 1 = Inr ([0x2588], [0x2591])" by (simp add: get_symbols_def)
  have p: "\<forall>p \<in> set [48, 100 :: rat]. 0 \<le> p \<and> p \<le> 100" by simp
  have t: "\<forall>t \<in> set [ascii ''3 repos'', ascii ''1 repo'']. length t \<le> 20" by (simp add: ascii_def)
  have s: "top_data [ascii ''Python'', ascii ''Go''] [ascii ''3 repos'', ascii ''1 repo''] [48, 100] 5 False
             = [(ascii ''Python'', ascii ''3 repos'', 48), (ascii ''Go'', ascii ''1 repo'', 100)]"
    by (simp add: top_data_def slice_to_def)
  from make_list_row_widths [OF g p t s [symmetric]]
  obtain rows where r: "make_list 1 [ascii ''Python'', ascii ''Go''] [ascii ''3 repos'', ascii ''1 repo''] [48, 100] 5 False
                 = Inr (py_join (ascii ''\<newline>'') rows)" "length rows = 2"
      "\<forall>i < length rows. length (rows ! i) = (if 19999 / 200 \<le> snd (snd ([(ascii ''Python'', ascii ''3 repos'', 48::rat), (ascii ''Go'', ascii ''1 repo'', 100)] ! i)) then 82 else 81)"
    by auto
  from r(2,3) have "length (rows ! 0) = 81" "length (rows ! 1) = 82" by auto
  with r(1,2) g p t show ?thesis by (auto simp: ascii_def)
qed

section \<open>The percentages\<close>

text \<open>\<open>ilog2\<close> is the binary exponent: \<open>2 ^ ilog2 x \<le> x < 2 ^ (ilog2 x + 1)\<close>.\<close>

lemma ilog2_le:
  assumes "0 < x"
  shows "2 powi (ilog2 x) \<le> x"
proof -
  obtain a b where q: "quotient_of x = (a, b)" by (cases "quotient_of x")
  then have b: "0 < b" and x: "x = of_int a / of_int b"
    using quotient_of_denom_pos [of x a b] quotient_of_div [of x a b] by auto
  have a: "0 < a" using assms b x by (simp add: zero_less_divide_iff)
  define d where "d = bitlen a - bitlen b"
  show ?thesis
  proof (cases "2 powi d \<le> x")
    case True
    then show ?thesis by (simp add: ilog2_def q d_def [symmetric])
  next
    case False
    have la: "(2::rat) powi (bitlen a - 1) \<le> of_int a"
    proof -
      have "(2::int) ^ nat (bitlen a - 1) \<le> a" using bitlen_bounds [OF a] by simp
      then have "of_int ((2::int) ^ nat (bitlen a - 1)) \<le> (of_int a :: rat)" by (simp only: of_int_le_iff)
      moreover have "1 \<le> bitlen a" using a by (auto simp: bitlen_alt_def)
      ultimately show ?thesis by (simp add: power_int_def)
    qed
    have lb: "of_int b < (2::rat) powi (bitlen b)"
    proof -
      have "b < (2::int) ^ nat (bitlen b)" using bitlen_bounds [OF b] by simp
      then have "(of_int b :: rat) < of_int ((2::int) ^ nat (bitlen b))" by (simp only: of_int_less_iff)
      then show ?thesis using bitlen_nonneg [of b] by (simp add: power_int_def)
    qed
    have "(2::rat) powi (d - 1) = 2 powi (bitlen a - 1) / 2 powi (bitlen b)"
      using power_int_diff [of "2::rat" "bitlen a - 1" "bitlen b"] by (simp add: d_def algebra_simps)
    also have "\<dots> \<le> of_int a / 2 powi (bitlen b)"
      using la by (simp add: divide_right_mono)
    also have "\<dots> \<le> of_int a / of_int b"
      using lb a b by (simp add: frac_le)
    finally have "(2::rat) powi (d - 1) \<le> x" using x by simp
    with False show ?thesis by (simp add: ilog2_def q d_def [symmetric])
  qed
qed

lemma ilog2_gt:
  assumes "0 < x"
  shows "x < 2 powi (ilog2 x + 1)"
proof -
  obtain a b where q: "quotient_of x = (a, b)" by (cases "quotient_of x")
  then have b: "0 < b" and x: "x = of_int a / of_int b"
    using quotient_of_denom_pos [of x a b] quotient_of_div [of x a b] by auto
  have a: "0 < a" using assms b x by (simp add: zero_less_divide_iff)
  define d where "d = bitlen a - bitlen b"
  show ?thesis
  proof (cases "2 powi d \<le> x")
    case False
    then show ?thesis by (simp add: ilog2_def q d_def [symmetric])
  next
    case True
    have la: "of_int a < (2::rat) powi (bitlen a)"
    proof -
      have "a < (2::int) ^ nat (bitlen a)" using bitlen_bounds [OF a] by simp
      then have "(of_int a :: rat) < of_int ((2::int) ^ nat (bitlen a))" by (simp only: of_int_less_iff)
      then show ?thesis using bitlen_nonneg [of a] by (simp add: power_int_def)
    qed
    have lb: "(2::rat) powi (bitlen b - 1) \<le> of_int b"
    proof -
      have "(2::int) ^ nat (bitlen b - 1) \<le> b" using bitlen_bounds [OF b] by simp
      then have "of_int ((2::int) ^ nat (bitlen b - 1)) \<le> (of_int b :: rat)" by (simp only: of_int_le_iff)
      moreover have "1 \<le> bitlen b" using b by (auto simp: bitlen_alt_def)
      ultimately show ?thesis by (simp add: power_int_def)
    qed
    have "of_int a / of_int b \<le> of_int a / (2::rat) powi (bitlen b - 1)"
      using lb a by (simp add: frac_le)
    also have "\<dots> < 2 powi (bitlen a) / 2 powi (bitlen b - 1)"
      using la by (simp add: divide_strict_right_mono)
    also have "\<dots> = (2::rat) powi (d + 1)"
      using power_int_diff [of "2::rat" "bitlen a" "bitlen b - 1"] by (simp add: d_def algebra_simps)
    finally have "x < 2 powi (d + 1)" using x by simp
    with True show ?thesis by (simp add: ilog2_def q d_def [symmetric])
  qed
qed

text \<open>
  Rounding to a float keeps the sign and does not cross an integer below \<open>2 ^ 53\<close>, since
  such an integer is a float itself.
\<close>

lemma round_double_nonneg: "0 \<le> x \<Longrightarrow> 0 \<le> round_double x"
proof -
  assume x: "0 \<le> x"
  have "0 \<le> py_round (\<bar>x\<bar> / 2 powi e)" for e
    by (intro py_round_ge) simp
  then show ?thesis using x by (simp add: round_double_def Let_def)
qed

lemma round_double_le_int:
  assumes "0 \<le> x" "x \<le> of_int n" "n < 2 ^ 53"
  shows "round_double x \<le> of_int n"
proof (cases "x = 0")
  case True
  with assms show ?thesis by (simp add: round_double_def)
next
  case False
  with assms(1) have pos: "0 < x" by simp
  define e where "e = max (ilog2 x - 52) (- 1074)"
  have "(2::rat) powi (ilog2 x) \<le> x" by (rule ilog2_le [OF pos])
  also have "x \<le> of_int n" by fact
  also have "(of_int n :: rat) < 2 ^ 53" using assms(3) by (metis of_int_less_iff of_int_numeral of_int_power)
  finally have "(2::rat) powi (ilog2 x) < 2 powi 53" by simp
  then have "ilog2 x < 53"
    using power_int_increasing [of 53 "ilog2 x" "2::rat"] by (cases "ilog2 x < 53") auto
  then have e: "e \<le> 0" using pos by (simp add: e_def)
  have "x / 2 powi e \<le> of_int n / 2 powi e"
    using assms(2) by (simp add: divide_right_mono)
  also have "of_int n / (2::rat) powi e = of_int (n * 2 ^ nat (- e))"
    using e by (simp add: power_int_def power_inverse field_simps)
  finally have "py_round (x / 2 powi e) \<le> n * 2 ^ nat (- e)" by (rule py_round_le)
  then have "(of_int (py_round (x / 2 powi e)) :: rat) \<le> of_int (n * 2 ^ nat (- e))"
    by (simp only: of_int_le_iff)
  then have "of_int (py_round (x / 2 powi e)) * 2 powi e \<le> (of_int (n * 2 ^ nat (- e)) :: rat) * 2 powi e"
    by (simp add: mult_right_mono)
  also have "(of_int (n * 2 ^ nat (- e)) :: rat) * 2 powi e = of_int n"
    using e by (simp add: power_int_def power_inverse field_simps)
  finally show ?thesis
    using pos False by (simp add: round_double_def e_def [symmetric] Let_def)
qed

lemma double_max_large: "100 < double_max"
proof -
  have "(1::rat) \<le> 2 ^ 971" by simp
  then have "(2 ^ 53 - 1) * (1::rat) \<le> (2 ^ 53 - 1) * 2 ^ 971"
    by (intro mult_left_mono) simp_all
  then show ?thesis by (simp add: double_max_def)
qed

lemma percent_in_range:
  assumes "0 < total_count" and "0 \<le> cnt" and "cnt \<le> total_count"
  shows "\<exists>p. percent cnt total_count = Inr p \<and> 0 \<le> p \<and> p \<le> 100
           \<and> p = py_round2 (round_double (round_double (of_int cnt / of_int total_count) * 100))"
proof -
  define q where "q = round_double (of_int cnt / of_int total_count)"
  define m where "m = round_double (q * 100)"
  have r: "0 \<le> (of_int cnt / of_int total_count :: rat)" "(of_int cnt / of_int total_count :: rat) \<le> of_int 1"
    using assms by simp_all
  have q: "0 \<le> q" "q \<le> 1"
    using round_double_nonneg [OF r(1)] round_double_le_int [OF r] by (simp_all add: q_def)
  then have "0 \<le> q * 100" "q * 100 \<le> of_int 100" by simp_all
  then have m: "0 \<le> m" "m \<le> 100"
    using round_double_nonneg [of "q * 100"] round_double_le_int [of "q * 100" 100] by (simp_all add: m_def)
  have "0 \<le> py_round (m * 100)" using m(1) by (intro py_round_ge) simp
  moreover have "py_round (m * 100) \<le> 10000" using m(2) by (intro py_round_le) simp
  ultimately have "0 \<le> (of_int (py_round (m * 100)) / 100 :: rat)" "(of_int (py_round (m * 100)) / 100 :: rat) \<le> of_int 100"
    by simp_all
  then have p: "0 \<le> py_round2 m" "py_round2 m \<le> 100"
    using round_double_nonneg [of "of_int (py_round (m * 100)) / 100"]
      round_double_le_int [of "of_int (py_round (m * 100)) / 100" 100]
    by (simp_all add: py_round2_def)
  have "percent cnt total_count = Inr (py_round2 m)"
    using assms(1) q m double_max_large by (simp add: percent_def q_def [symmetric] m_def [symmetric] Let_def)
  with p show ?thesis by (simp add: m_def q_def)
qed

text \<open>
  Claim C8. The percentage is \<open>round(count / total * 100, 2)\<close>, computed in floats: the
  quotient and the product are rounded to binary64, and so is the decimal rounding. For
  every positive total and every count between 0 and the total the expression raises
  nothing and its value lies between 0 and 100.
\<close>

theorem percent_bounds:
  assumes "0 < total_count" and "0 \<le> cnt" and "cnt \<le> total_count"
  shows "\<exists>p. percent cnt total_count = Inr p \<and> 0 \<le> p \<and> p \<le> 100
           \<and> p = py_round2 (round_double (round_double (of_int cnt / of_int total_count) * 100))"
  using assms by (rule percent_in_range)

theorem percent_bounds_witness:
  "(0::int) < 4 \<and> (0::int) \<le> 1 \<and> (1::int) \<le> 4
   \<and> (\<exists>p. percent 1 4 = Inr p \<and> 0 \<le> p \<and> p \<le> 100)"
  using percent_bounds [of 4 1] by auto

section \<open>Commits by time of day\<close>

lemma list_incr_in_range:
  "0 \<le> i \<Longrightarrow> i < int (length xs) \<Longrightarrow> list_incr xs i = Inr (xs[nat i := xs ! nat i + 1])"
  by (simp add: list_incr_def Let_def)

lemma count_dates_counts:
  assumes "length day_times = 4" "length week_days = 7"
    and "\<forall>d\<in>set dates. 0 \<le> hour d \<and> hour d < 24 \<and> 1 \<le> isoweekday d \<and> isoweekday d \<le> 7"
  shows "\<exists>dt wd. count_dates (day_times, week_days) dates = Inr (dt, wd) \<and> length dt = 4 \<and> length wd = 7
           \<and> (\<forall>b<4. dt ! b = day_times ! b + int (length (filter (\<lambda>d. hour d div 6 = int b) dates)))"
  using assms
proof (induction dates arbitrary: day_times week_days)
  case Nil
  then show ?case by simp
next
  case (Cons d dates)
  define k where "k = hour d div 6"
  have k: "0 \<le> k" "k < 4" using Cons.prems(3) by (auto simp: k_def)
  have w: "0 \<le> isoweekday d - 1" "isoweekday d - 1 < 7" using Cons.prems(3) by auto
  define dt1 where "dt1 = day_times[nat k := day_times ! nat k + 1]"
  define wd1 where "wd1 = week_days[nat (isoweekday d - 1) := week_days ! nat (isoweekday d - 1) + 1]"
  have s1: "list_incr day_times (hour d div 6) = Inr dt1"
    using k Cons.prems(1) by (simp add: list_incr_in_range k_def dt1_def)
  have s2: "list_incr week_days (isoweekday d - 1) = Inr wd1"
    using w Cons.prems(2) by (simp add: list_incr_in_range wd1_def)
  have "length dt1 = 4" "length wd1 = 7" using Cons.prems by (simp_all add: dt1_def wd1_def)
  moreover have "\<forall>d\<in>set dates. 0 \<le> hour d \<and> hour d < 24 \<and> 1 \<le> isoweekday d \<and> isoweekday d \<le> 7"
    using Cons.prems(3) by simp
  ultimately obtain dt wd where r: "count_dates (dt1, wd1) dates = Inr (dt, wd)" "length dt = 4" "length wd = 7"
    "\<forall>b<4. dt ! b = dt1 ! b + int (length (filter (\<lambda>d. hour d div 6 = int b) dates))"
    using Cons.IH [of dt1 wd1] by blast
  have "dt ! b = day_times ! b + int (length (filter (\<lambda>d. hour d div 6 = int b) (d # dates)))" if "b < 4" for b
  proof -
    have "dt1 ! b = day_times ! b + (if int b = k then 1 else 0)"
      using that k Cons.prems(1) by (auto simp: dt1_def nth_list_update)
    with r(4) that show ?thesis by (simp add: k_def)
  qed
  with r(1-3) s1 s2 show ?case by simp
qed

lemma count_repos_counts:
  assumes "length day_times = 4" "length week_days = 7"
    and "\<forall>d\<in>set (concat (map (\<lambda>r. case r of None \<Rightarrow> [] | Some ds \<Rightarrow> ds) repos)).
           0 \<le> hour d \<and> hour d < 24 \<and> 1 \<le> isoweekday d \<and> isoweekday d \<le> 7"
  shows "\<exists>dt wd. count_repos (day_times, week_days) repos = Inr (dt, wd) \<and> length dt = 4 \<and> length wd = 7
           \<and> (\<forall>b<4. dt ! b = day_times ! b
                 + int (length (filter (\<lambda>d. hour d div 6 = int b)
                     (concat (map (\<lambda>r. case r of None \<Rightarrow> [] | Some ds \<Rightarrow> ds) repos)))))"
  using assms
proof (induction repos arbitrary: day_times week_days)
  case Nil
  then show ?case by simp
next
  case (Cons r repos)
  show ?case
  proof (cases r)
    case None
    with Cons.IH [of day_times week_days] Cons.prems show ?thesis by simp
  next
    case (Some ds)
    have "\<forall>d\<in>set ds. 0 \<le> hour d \<and> hour d < 24 \<and> 1 \<le> isoweekday d \<and> isoweekday d \<le> 7"
      using Cons.prems(3) Some by simp
    then obtain dt1 wd1 where a: "count_dates (day_times, week_days) ds = Inr (dt1, wd1)" "length dt1 = 4" "length wd1 = 7"
      "\<forall>b<4. dt1 ! b = day_times ! b + int (length (filter (\<lambda>d. hour d div 6 = int b) ds))"
      using count_dates_counts [OF Cons.prems(1,2), of ds] by blast
    have "\<forall>d\<in>set (concat (map (\<lambda>r. case r of None \<Rightarrow> [] | Some ds \<Rightarrow> ds) repos)).
           0 \<le> hour d \<and> hour d < 24 \<and> 1 \<le> isoweekday d \<and> isoweekday d \<le> 7"
      using Cons.prems(3) by simp
    then obtain dt wd where b: "count_repos (dt1, wd1) repos = Inr (dt, wd)" "length dt = 4" "length wd = 7"
      "\<forall>b<4. dt ! b = dt1 ! b + int (length (filter (\<lambda>d. hour d div 6 = int b)
                     (concat (map (\<lambda>r. case r of None \<Rightarrow> [] | Some ds \<Rightarrow> ds) repos))))"
      using Cons.IH [OF a(2,3)] by blast
    from a b Some show ?thesis by simp
  qed
qed

lemma rotate_day_times_four:
  assumes "length raw = 4"
  shows "\<forall>i<4. rotate_day_times raw ! i = raw ! ((i + 1) mod 4)"
proof -
  obtain a b c d where raw: "raw = [a, b, c, d]"
    using assms by (auto simp: length_Suc_conv eval_nat_numeral)
  have "rotate_day_times raw ! i = raw ! ((i + 1) mod 4)" if "i < 4" for i
  proof -
    from that consider "i = 0" | "i = 1" | "i = 2" | "i = 3" by linarith
    then show ?thesis by cases (simp_all add: raw rotate_day_times_def)
  qed
  then show ?thesis by blast
qed

lemma mset_rotate_day_times: "mset (rotate_day_times raw) = mset raw"
proof -
  have "mset (rotate_day_times raw) = mset (take 1 raw @ drop 1 raw)"
    unfolding rotate_day_times_def by (simp only: mset_append add.commute)
  then show ?thesis by (simp only: append_take_drop_id)
qed

section \<open>Languages per repository\<close>

lemma dict_get_nonneg:
  "\<forall>n\<in>set (map snd d). (0::int) \<le> n \<Longrightarrow> 0 \<le> dict_get d k 0"
  by (induction d) (auto simp: dict_get_def)

lemma dict_set_count:
  "sum_list (map snd (dict_set d k (dict_get d k 0 + 1))) = sum_list (map snd d) + (1::int)"
  "set (map snd (dict_set d k (dict_get d k 0 + 1))) \<subseteq> insert (dict_get d k 0 + 1) (set (map snd d))"
  "dict_set d k v \<noteq> []"
proof -
  have a: "sum_list (map snd (dict_set d k (c + 1))) = sum_list (map snd d) + (1::int)
        \<and> set (map snd (dict_set d k (c + 1))) \<subseteq> insert (c + 1) (set (map snd d))"
    if "c = dict_get d k 0" for c
    using that
  proof (induction d)
    case Nil
    then show ?case by (simp add: dict_get_def)
  next
    case (Cons kv d)
    obtain k' v' where kv: "kv = (k', v')" by (cases kv)
    show ?case
    proof (cases "k' = k")
      case True
      with Cons.prems kv show ?thesis by (auto simp: dict_get_def)
    next
      case False
      with Cons.prems kv have "c = dict_get d k 0" by (simp add: dict_get_def)
      from Cons.IH [OF this] False kv show ?thesis by auto
    qed
  qed
  from a [OF refl] show "sum_list (map snd (dict_set d k (dict_get d k 0 + 1))) = sum_list (map snd d) + (1::int)"
    "set (map snd (dict_set d k (dict_get d k 0 + 1))) \<subseteq> insert (dict_get d k 0 + 1) (set (map snd d))"
    by blast+
  show "dict_set d k v \<noteq> []" by (cases d) (auto split: if_splits)
qed

lemma count_languages_counts:
  assumes "\<forall>n\<in>set (map snd d). (0::int) \<le> n"
  shows "sum_list (map snd (count_languages d xs)) = sum_list (map snd d) + int (length xs)
       \<and> (\<forall>n\<in>set (map snd (count_languages d xs)). 0 \<le> n)
       \<and> (d \<noteq> [] \<or> xs \<noteq> [] \<longrightarrow> count_languages d xs \<noteq> [])"
  using assms
proof (induction xs arbitrary: d)
  case Nil
  then show ?case by simp
next
  case (Cons x xs)
  define d1 where "d1 = dict_set d x (dict_get d x 0 + 1)"
  have "0 \<le> dict_get d x 0 + 1" using dict_get_nonneg [OF Cons.prems] by simp
  then have nn: "\<forall>n\<in>set (map snd d1). 0 \<le> n"
    using dict_set_count(2) [of d x] Cons.prems unfolding d1_def by blast
  have s: "sum_list (map snd d1) = sum_list (map snd d) + 1" "d1 \<noteq> []"
    by (simp_all add: d1_def dict_set_count)
  from Cons.IH [OF nn] s show ?case by (simp add: d1_def [symmetric])
qed

lemma member_le_sum_list_int:
  "\<forall>n\<in>set ns. (0::int) \<le> n \<Longrightarrow> n \<in> set ns \<Longrightarrow> n \<le> sum_list ns"
proof (induction ns)
  case Nil
  then show ?case by simp
next
  case (Cons m ns)
  have "0 \<le> sum_list ns" using Cons.prems(1) by (simp add: sum_list_nonneg)
  with Cons show ?case by auto
qed

text \<open>
  With a language on some repository and a symbol version of the enumeration the
  function returns: every count lies between 0 and the number of repositories with a
  language, so no percentage raises.
\<close>

lemma make_language_per_repo_list_returns:
  assumes "get_symbols symbol_version = Inr glyphs" and "Some language \<in> set repositories"
  shows "\<exists>out. make_language_per_repo_list mostly_code_in symbol_version repositories = Inr out"
proof -
  define rs where "rs = concat (map (\<lambda>repo. case repo of None \<Rightarrow> [] | Some language \<Rightarrow> [language]) repositories)"
  define lc where "lc = count_languages [] rs"
  have "language \<in> set rs" using assms(2) by (force simp: rs_def)
  then have ne: "rs \<noteq> []" by auto
  have c: "sum_list (map snd lc) = int (length rs)" "\<forall>n\<in>set (map snd lc). 0 \<le> n" "lc \<noteq> []"
    using count_languages_counts [of "[]" rs] ne by (simp_all add: lc_def)
  have "\<exists>p. (case kv of (lang, n) \<Rightarrow> percent n (int (length rs))) = Inr p" if "kv \<in> set lc" for kv
  proof -
    obtain lang n where kv: "kv = (lang, n)" by (cases kv)
    then have "n \<in> set (map snd lc)" using that by force
    then have "0 \<le> n" "n \<le> int (length rs)"
      using c(1,2) member_le_sum_list_int [of "map snd lc" n] by auto
    moreover have "0 < int (length rs)" using ne by simp
    ultimately show ?thesis using percent_in_range [of "int (length rs)" n] kv by auto
  qed
  then obtain h where "\<And>kv. kv \<in> set lc \<Longrightarrow> (case kv of (lang, n) \<Rightarrow> percent n (int (length rs))) = Inr (h kv)"
    by metis
  then have t: "traverse (\<lambda>(lang, n). percent n (int (length rs))) lc = Inr (map h lc)"
    by (intro traverse_all_Inr) simp
  obtain top where m: "py_max_key (\<lambda>x. dict_get lc x 0) (map fst lc) = Inr top"
    using c(3) by (cases lc) auto
  obtain rows where r: "traverse (format_row symbol_version)
      (top_data (map fst lc) (map (\<lambda>(lang, n). str_int n @ ascii '' '' @ (if n = 1 then ascii ''repo'' else ascii ''repos'')) lc)
         (map h lc) 5 True) = Inr rows"
    using make_list_returns [OF assms(1)] by blast
  show ?thesis
    using t m r
    by (simp add: make_language_per_repo_list_def rs_def [symmetric] lc_def [symmetric] make_list_def Let_def)
qed

lemma repos_all_None:
  "(\<forall>repo\<in>set repositories. repo = None) \<Longrightarrow>
   concat (map (\<lambda>repo. case repo of None \<Rightarrow> [] | Some language \<Rightarrow> [language]) repositories) = []"
  by (induction repositories) auto

text \<open>
  Claim C10. When no repository has a primary language, \<open>make_language_per_repo_list\<close>
  raises \<open>ValueError\<close>: \<open>max\<close> of line 146 runs on an empty sequence before the test of
  line 147 is reached. So the branch of that test with the empty title is never taken:
  whenever the function returns, some repository has a language and the result begins
  with the title.
\<close>

theorem make_language_per_repo_list_empty:
  "((\<forall>repo\<in>set repositories. repo = None) \<longrightarrow>
      make_language_per_repo_list mostly_code_in symbol_version repositories = Inl ValueError)
   \<and> (\<forall>out. make_language_per_repo_list mostly_code_in symbol_version repositories = Inr out \<longrightarrow>
          (\<exists>language. Some language \<in> set repositories) \<and> prefix (ascii ''**'') out)"
proof (intro conjI impI allI)
  assume "\<forall>repo\<in>set repositories. repo = None"
  then show "make_language_per_repo_list mostly_code_in symbol_version repositories = Inl ValueError"
    by (simp add: make_language_per_repo_list_def repos_all_None)
next
  fix out
  assume ok: "make_language_per_repo_list mostly_code_in symbol_version repositories = Inr out"
  define rs where "rs = concat (map (\<lambda>repo. case repo of None \<Rightarrow> [] | Some language \<Rightarrow> [language]) repositories)"
  have ne: "rs \<noteq> []"
  proof
    assume "rs = []"
    then have "make_language_per_repo_list mostly_code_in symbol_version repositories = Inl ValueError"
      by (simp add: make_language_per_repo_list_def rs_def [symmetric])
    with ok show False by simp
  qed
  then obtain language where "language \<in> set rs" by (cases rs) auto
  then show "\<exists>language. Some language \<in> set repositories"
    by (auto simp: rs_def split: option.splits)
  from ok ne show "prefix (ascii ''**'') out"
    by (auto simp: make_language_per_repo_list_def rs_def [symmetric] Let_def split: sum.splits)
qed

theorem make_language_per_repo_list_empty_witness:
  "list_all (\<lambda>repo. repo = None) [None, None :: pystr option]
   \<and> make_language_per_repo_list (\<lambda>x. ascii ''I Mostly Code in '' @ x) 1 [None, None] = Inl ValueError
   \<and> (\<exists>out. make_language_per_repo_list (\<lambda>x. ascii ''I Mostly Code in '' @ x) 1 [None, Some (ascii ''Go'')] = Inr out
          \<and> prefix (ascii ''**'') out)"
proof -
  have a: "\<forall>repo\<in>set [None, None :: pystr option]. repo = None" by simp
  have g: "get_symbols 1 = Inr ([0x2588], [0x2591])" by (simp add: get_symbols_def)
  obtain out where c: "make_language_per_repo_list (\<lambda>x. ascii ''I Mostly Code in '' @ x) 1 [None, Some (ascii ''Go'')] = Inr out"
    using make_language_per_repo_list_returns [OF g, of "ascii ''Go''" "[None, Some (ascii ''Go'')]"] by auto
  show ?thesis
    using make_language_per_repo_list_empty [of "[None, None]" "\<lambda>x. ascii ''I Mostly Code in '' @ x" 1] a
      make_language_per_repo_list_empty [of "[None, Some (ascii ''Go'')]" "\<lambda>x. ascii ''I Mostly Code in '' @ x" 1] c
    by auto
qed

section \<open>The section of the README\<close>

text \<open>A run of literal characters matches exactly when it is a prefix of the string.\<close>

lemma match_here_literal:
  "match_here (map Chr lit @ r) s =
     (if prefix lit s then map_option (\<lambda>n. length lit + n) (match_here r (drop (length lit) s)) else None)"
proof (induction lit arbitrary: s)
  case Nil
  then show ?case by (cases "match_here r s") simp_all
next
  case (Cons c lit)
  show ?case
  proof (cases s)
    case Nil
    then show ?thesis by simp
  next
    case (Cons x xs)
    then show ?thesis using Cons.IH [of xs] by (simp add: option.map_comp comp_def)
  qed
qed

lemma match_here_literal_only:
  "match_here (map Chr lit) s = (if prefix lit s then Some (length lit) else None)"
  using match_here_literal [of lit "[]" s] by simp

text \<open>A match of the repetition and the end comment is one character or more and then the comment.\<close>

lemma match_here_any_Some:
  "match_here (AnyPlus # map Chr e) s = Some n \<Longrightarrow>
     \<exists>mid post. mid \<noteq> [] \<and> s = mid @ e @ post \<and> n = length mid + length e"
proof (induction s arbitrary: n)
  case Nil
  then show ?case by simp
next
  case (Cons x s)
  show ?case
  proof (cases "match_here (AnyPlus # map Chr e) s")
    case (Some k)
    then obtain mid post where "mid \<noteq> []" "s = mid @ e @ post" "k = length mid + length e"
      using Cons.IH by blast
    moreover have "n = Suc k" using Cons.prems Some by simp
    ultimately show ?thesis by (intro exI [of _ "x # mid"] exI [of _ post]) simp
  next
    case None
    with Cons.prems have p: "prefix e s" "n = Suc (length e)"
      by (auto simp: match_here_literal_only split: if_splits)
    then obtain post where "s = e @ post" by (auto simp: prefix_def)
    with p(2) show ?thesis by (intro exI [of _ "[x]"] exI [of _ post]) simp
  qed
qed

lemma match_here_README:
  assumes "match_here (README_REGEX section_name) s = Some n"
  shows "\<exists>mid post. mid \<noteq> [] \<and> s = START_COMMENT section_name @ mid @ END_COMMENT section_name @ post"
proof -
  let ?S = "START_COMMENT section_name" and ?E = "END_COMMENT section_name"
  have m: "match_here (map Chr ?S @ AnyPlus # map Chr ?E) s = Some n"
    using assms by (simp add: README_REGEX_def)
  then have p: "prefix ?S s" by (simp add: match_here_literal split: if_splits)
  then obtain rest where rest: "s = ?S @ rest" by (auto simp: prefix_def)
  from m p obtain k where "match_here (AnyPlus # map Chr ?E) rest = Some k"
    by (auto simp: match_here_literal rest)
  from match_here_any_Some [OF this] rest show ?thesis by auto
qed

lemma sub_scan_no_match:
  assumes "\<And>pre rest. s = pre @ rest \<Longrightarrow> match_here r rest = None"
  shows "sub_scan r template 0 s = s"
  using assms
proof (induction s)
  case Nil
  then show ?case by simp
next
  case (Cons x s)
  have "match_here r (x # s) = None" using Cons.prems [of "[]" "x # s"] by simp
  moreover have "sub_scan r template 0 s = s"
  proof (rule Cons.IH)
    fix pre rest
    assume "s = pre @ rest"
    then show "match_here r rest = None" using Cons.prems [of "x # pre" rest] by simp
  qed
  ultimately show ?case by simp
qed

text \<open>A replacement without a backslash is taken as it is.\<close>

lemma parse_template_plain:
  "0x5C \<notin> set s \<Longrightarrow> parse_template s = Inr (map Lit s)"
  by (induction s) (simp_all add: prepend_def)

lemma expand_template_plain: "expand_template (map Lit s) m = s"
  by (induction s) (simp_all add: expand_template_def)

lemma plain_name_no_backslash: "plain_name section_name \<Longrightarrow> 0x5C \<notin> set section_name"
  by (auto simp: plain_name_def regex_special_def list_all_iff)

lemma readme_stats_plain:
  assumes "plain_name section_name" "0x5C \<notin> set stats"
  shows "0x5C \<notin> set (START_COMMENT section_name @ ascii ''\<newline>'' @ stats @ ascii ''\<newline>'' @ END_COMMENT section_name)"
  using assms plain_name_no_backslash [OF assms(1)]
  by (simp add: START_COMMENT_def END_COMMENT_def ascii_def)

text \<open>
  Claim C1 says that a document without the markers gives an outcome of its own, distinct
  from "nothing to change". On the document \<open>hello\<close> the code returns the document as it
  is with the flag \<open>False\<close>, which is the outcome of an unchanged section.
\<close>

theorem update_readme_without_markers_counterexample:
  "update_readme (ascii ''waka'') (ascii ''hello'') (ascii ''new'') = Inr (ascii ''hello'', False)"
  by (simp add: update_readme_def generate_new_readme_def re_sub_def README_REGEX_def START_COMMENT_def END_COMMENT_def
      ascii_def prepend_def)

text \<open>
  Claim C1 as amended. For a section name whose characters stand for themselves in a
  regular expression (as the default \<open>waka\<close> does) and a body without a backslash: when
  the document does not hold the start comment, at least one character and the end
  comment in this order, the pattern matches nowhere and \<open>update_readme\<close> writes nothing
  and returns \<open>False\<close>, as it does when the section is up to date; the code has no
  outcome of its own for missing markers.
\<close>

theorem update_readme_without_markers:
  assumes "plain_name section_name" and "0x5C \<notin> set stats"
    and "\<not> (\<exists>pre mid post. mid \<noteq> [] \<and>
            readme_contents = pre @ START_COMMENT section_name @ mid @ END_COMMENT section_name @ post)"
  shows "update_readme section_name readme_contents stats = Inr (readme_contents, False)"
proof -
  have "match_here (README_REGEX section_name) rest = None" if "readme_contents = pre @ rest" for pre rest
  proof (cases "match_here (README_REGEX section_name) rest")
    case None
    then show ?thesis .
  next
    case (Some n)
    from match_here_README [OF this] that assms(3) show ?thesis by blast
  qed
  then have "sub_scan (README_REGEX section_name) template 0 readme_contents = readme_contents" for template
    by (rule sub_scan_no_match)
  then show ?thesis
    using parse_template_plain [OF readme_stats_plain [OF assms(1,2)]]
    by (simp add: update_readme_def generate_new_readme_def re_sub_def)
qed

theorem update_readme_without_markers_witness:
  "plain_name (ascii ''waka'') \<and> 0x5C \<notin> set (ascii ''new'')
   \<and> update_readme (ascii ''waka'') (ascii ''hello'') (ascii ''new'') = Inr (ascii ''hello'', False)"
proof -
  have p: "plain_name (ascii ''waka'')"
    by (simp add: plain_name_def regex_special_def ascii_def)
  have b: "0x5C \<notin> set (ascii ''new'')" by (simp add: ascii_def)
  have n: "\<not> (\<exists>pre mid post. mid \<noteq> [] \<and>
            ascii ''hello'' = pre @ START_COMMENT (ascii ''waka'') @ mid @ END_COMMENT (ascii ''waka'') @ post)"
  proof
    assume "\<exists>pre mid post. mid \<noteq> [] \<and>
            ascii ''hello'' = pre @ START_COMMENT (ascii ''waka'') @ mid @ END_COMMENT (ascii ''waka'') @ post"
    then obtain pre mid post where "ascii ''hello'' = pre @ START_COMMENT (ascii ''waka'') @ mid @ END_COMMENT (ascii ''waka'') @ post"
      by blast
    then have "length (ascii ''hello'') = length (pre @ START_COMMENT (ascii ''waka'') @ mid @ END_COMMENT (ascii ''waka'') @ post)"
      by simp
    then show False by (simp add: START_COMMENT_def END_COMMENT_def ascii_def)
  qed
  show ?thesis using update_readme_without_markers [OF p b n] p b by simp
qed

text \<open>
  Claim C5 says that the new document holds the body as it is between the markers. The
  body is pasted into the replacement string of \<open>re.sub\<close>, which reads backslashes as
  escapes: for the body \<open>a\nb\<close> of four characters (a backslash and an \<open>n\<close> in the middle)
  the new document holds \<open>a\<close>, a line feed and \<open>b\<close>, and the body itself is nowhere in it.
\<close>

theorem generate_new_readme_backslash_body:
  "generate_new_readme (ascii ''waka'')
     (START_COMMENT (ascii ''waka'') @ ascii ''x'' @ END_COMMENT (ascii ''waka''))
     [97, 0x5C, 110, 98]
   = Inr (START_COMMENT (ascii ''waka'') @ [10, 97, 10, 98, 10] @ END_COMMENT (ascii ''waka''))
   \<and> \<not> sublist [97, 0x5C, 110, 98]
         (START_COMMENT (ascii ''waka'') @ [10, 97, 10, 98, 10] @ END_COMMENT (ascii ''waka''))"
proof
  show "generate_new_readme (ascii ''waka'')
     (START_COMMENT (ascii ''waka'') @ ascii ''x'' @ END_COMMENT (ascii ''waka''))
     [97, 0x5C, 110, 98]
   = Inr (START_COMMENT (ascii ''waka'') @ [10, 97, 10, 98, 10] @ END_COMMENT (ascii ''waka''))"
    by (simp add: generate_new_readme_def re_sub_def README_REGEX_def START_COMMENT_def END_COMMENT_def
        ascii_def prepend_def escape_char_def is_digit_def expand_template_def)
  have "0x5C \<notin> set (START_COMMENT (ascii ''waka'') @ [10, 97, 10, 98, 10] @ END_COMMENT (ascii ''waka''))"
    by (simp add: START_COMMENT_def END_COMMENT_def ascii_def)
  then show "\<not> sublist [97, 0x5C, 110, 98]
         (START_COMMENT (ascii ''waka'') @ [10, 97, 10, 98, 10] @ END_COMMENT (ascii ''waka''))"
    using set_mono_sublist [of "[97, 0x5C, 110, 98]"
        "START_COMMENT (ascii ''waka'') @ [10, 97, 10, 98, 10] @ END_COMMENT (ascii ''waka'')"]
    by auto
qed

text \<open>
  Claim C2 says that a second run with the same body changes nothing. For the body
  \<open>\g<0>\<close> the replacement string refers to the matched text: the first run wraps the old
  section into a new one, and the second run, on the result of the first, wraps it again
  and reports a change. For the body \<open>\d\<close> the call raises and reports nothing.
\<close>

theorem update_readme_group_reference_body:
  "update_readme (ascii ''waka'')
     (START_COMMENT (ascii ''waka'') @ ascii ''x'' @ END_COMMENT (ascii ''waka''))
     [0x5C, 103, 60, 48, 62]
   = Inr (START_COMMENT (ascii ''waka'') @ [10]
          @ (START_COMMENT (ascii ''waka'') @ ascii ''x'' @ END_COMMENT (ascii ''waka''))
          @ [10] @ END_COMMENT (ascii ''waka''), True)
   \<and> update_readme (ascii ''waka'')
     (START_COMMENT (ascii ''waka'') @ [10]
          @ (START_COMMENT (ascii ''waka'') @ ascii ''x'' @ END_COMMENT (ascii ''waka''))
          @ [10] @ END_COMMENT (ascii ''waka''))
     [0x5C, 103, 60, 48, 62]
   = Inr (START_COMMENT (ascii ''waka'') @ [10]
          @ (START_COMMENT (ascii ''waka'') @ [10]
             @ (START_COMMENT (ascii ''waka'') @ ascii ''x'' @ END_COMMENT (ascii ''waka''))
             @ [10] @ END_COMMENT (ascii ''waka''))
          @ [10] @ END_COMMENT (ascii ''waka''), True)
   \<and> update_readme (ascii ''waka'')
     (START_COMMENT (ascii ''waka'') @ ascii ''x'' @ END_COMMENT (ascii ''waka''))
     [0x5C, 100]
   = Inl ReError"
  by (simp add: update_readme_def generate_new_readme_def re_sub_def README_REGEX_def START_COMMENT_def END_COMMENT_def
      ascii_def prepend_def escape_char_def is_digit_def is_ascii_letter_def expand_template_def)

section \<open>The published report of the commits\<close>

text \<open>Each step of the loops adds one to one counter of each array and keeps the signs.\<close>

lemma sum_list_incr:
  "k < length xs \<Longrightarrow> sum_list (xs[k := xs ! k + 1]) = sum_list xs + (1::int)"
proof (induction xs arbitrary: k)
  case Nil
  then show ?case by simp
next
  case (Cons x xs)
  then show ?case by (cases k) simp_all
qed

lemma list_incr_props:
  assumes "list_incr xs i = Inr ys"
  shows "length ys = length xs" "sum_list ys = sum_list xs + 1"
    "(\<forall>n\<in>set xs. 0 \<le> n) \<Longrightarrow> (\<forall>n\<in>set ys. 0 \<le> n)"
proof -
  define k where "k = nat (if i < 0 then int (length xs) + i else i)"
  have r: "- int (length xs) \<le> i \<and> i < int (length xs)"
  proof (rule ccontr)
    assume "\<not> (- int (length xs) \<le> i \<and> i < int (length xs))"
    then have "list_incr xs i = Inl IndexError" by (auto simp: list_incr_def)
    with assms show False by simp
  qed
  then have "list_incr xs i = Inr (xs[k := xs ! k + 1])"
    by (simp add: list_incr_def Let_def k_def)
  with assms have ys: "ys = xs[k := xs ! k + 1]" by simp
  have k: "k < length xs" using r by (auto simp: k_def)
  show "length ys = length xs" by (simp add: ys)
  show "sum_list ys = sum_list xs + 1" using k by (simp add: ys sum_list_incr)
  show "\<forall>n\<in>set ys. 0 \<le> n" if nn: "\<forall>n\<in>set xs. 0 \<le> n"
  proof
    fix n assume "n \<in> set ys"
    then have "n = xs ! k + 1 \<or> n \<in> set xs"
      using set_update_subset_insert [of xs k "xs ! k + 1"] by (auto simp: ys)
    moreover have "0 \<le> xs ! k" using nn k by simp
    ultimately show "0 \<le> n" using nn by auto
  qed
qed

lemma count_dates_sums:
  assumes "count_dates (dt, wd) dates = Inr (dt', wd')"
  shows "sum_list dt' = sum_list dt + int (length dates) \<and> sum_list wd' = sum_list wd + int (length dates)
       \<and> length dt' = length dt \<and> length wd' = length wd"
  using assms
proof (induction dates arbitrary: dt wd)
  case Nil
  then show ?case by simp
next
  case (Cons d dates)
  from Cons.prems obtain dt1 wd1 where s: "list_incr dt (hour d div 6) = Inr dt1"
    "list_incr wd (isoweekday d - 1) = Inr wd1" "count_dates (dt1, wd1) dates = Inr (dt', wd')"
    by (auto split: sum.splits)
  note ih = Cons.IH [OF s(3)] and a = list_incr_props(1,2) [OF s(1)] and b = list_incr_props(1,2) [OF s(2)]
  have "sum_list dt' = sum_list dt + int (length (d # dates))" using ih a(2) by simp
  moreover have "sum_list wd' = sum_list wd + int (length (d # dates))" using ih b(2) by simp
  moreover have "length dt' = length dt" "length wd' = length wd" using ih a(1) b(1) by simp_all
  ultimately show ?case by (intro conjI)
qed

lemma count_dates_nonneg:
  assumes "count_dates (dt, wd) dates = Inr (dt', wd')"
    and "\<forall>n\<in>set dt. 0 \<le> n" and "\<forall>n\<in>set wd. 0 \<le> n"
  shows "(\<forall>n\<in>set dt'. 0 \<le> n) \<and> (\<forall>n\<in>set wd'. 0 \<le> n)"
  using assms
proof (induction dates arbitrary: dt wd)
  case Nil
  then show ?case by simp
next
  case (Cons d dates)
  from Cons.prems(1) obtain dt1 wd1 where s: "list_incr dt (hour d div 6) = Inr dt1"
    "list_incr wd (isoweekday d - 1) = Inr wd1" "count_dates (dt1, wd1) dates = Inr (dt', wd')"
    by (auto split: sum.splits)
  have "\<forall>n\<in>set dt1. 0 \<le> n" using Cons.prems(2) by (rule list_incr_props(3) [OF s(1)])
  moreover have "\<forall>n\<in>set wd1. 0 \<le> n" using Cons.prems(3) by (rule list_incr_props(3) [OF s(2)])
  ultimately show ?case by (rule Cons.IH [OF s(3)])
qed

lemma count_repos_sums:
  assumes "count_repos (dt, wd) repos = Inr (dt', wd')"
    and "dates = concat (map (\<lambda>r. case r of None \<Rightarrow> [] | Some ds \<Rightarrow> ds) repos)"
  shows "sum_list dt' = sum_list dt + int (length dates) \<and> sum_list wd' = sum_list wd + int (length dates)
       \<and> length dt' = length dt \<and> length wd' = length wd"
  using assms
proof (induction repos arbitrary: dt wd dates)
  case Nil
  then show ?case by simp
next
  case (Cons r repos)
  show ?case
  proof (cases r)
    case None
    then have "count_repos (dt, wd) repos = Inr (dt', wd')"
      "dates = concat (map (\<lambda>r. case r of None \<Rightarrow> [] | Some ds \<Rightarrow> ds) repos)"
      using Cons.prems by simp_all
    then show ?thesis by (rule Cons.IH)
  next
    case (Some ds)
    with Cons.prems(1) obtain dt1 wd1 where s: "count_dates (dt, wd) ds = Inr (dt1, wd1)"
      "count_repos (dt1, wd1) repos = Inr (dt', wd')"
      by (auto split: sum.splits)
    define rest where "rest = concat (map (\<lambda>r. case r of None \<Rightarrow> [] | Some ds \<Rightarrow> ds) repos)"
    have len: "int (length dates) = int (length ds) + int (length rest)"
      using Cons.prems(2) Some by (simp add: rest_def)
    note a = count_dates_sums [OF s(1)] and ih = Cons.IH [OF s(2) rest_def]
    have "sum_list dt' = sum_list dt + int (length dates)" using ih a len by simp
    moreover have "sum_list wd' = sum_list wd + int (length dates)" using ih a len by simp
    moreover have "length dt' = length dt" "length wd' = length wd" using ih a by simp_all
    ultimately show ?thesis by (intro conjI)
  qed
qed

lemma count_repos_nonneg:
  assumes "count_repos (dt, wd) repos = Inr (dt', wd')"
    and "\<forall>n\<in>set dt. 0 \<le> n" and "\<forall>n\<in>set wd. 0 \<le> n"
  shows "(\<forall>n\<in>set dt'. 0 \<le> n) \<and> (\<forall>n\<in>set wd'. 0 \<le> n)"
  using assms
proof (induction repos arbitrary: dt wd)
  case Nil
  then show ?case by simp
next
  case (Cons r repos)
  show ?case
  proof (cases r)
    case None
    then have "count_repos (dt, wd) repos = Inr (dt', wd')" using Cons.prems(1) by simp
    then show ?thesis using Cons.prems(2,3) by (rule Cons.IH)
  next
    case (Some ds)
    with Cons.prems(1) obtain dt1 wd1 where s: "count_dates (dt, wd) ds = Inr (dt1, wd1)"
      "count_repos (dt1, wd1) repos = Inr (dt', wd')"
      by (auto split: sum.splits)
    from count_dates_nonneg [OF s(1) Cons.prems(2,3)]
    have "\<forall>n\<in>set dt1. 0 \<le> n" "\<forall>n\<in>set wd1. 0 \<le> n" by (rule conjunct1, rule conjunct2)
    then show ?thesis by (rule Cons.IH [OF s(2)])
  qed
qed

lemma format_row_returns:
  assumes "get_symbols v = Inr glyphs"
  shows "\<exists>row. format_row v r = Inr row"
proof -
  obtain d0 e0 where "glyphs = (d0, e0)" by (cases glyphs)
  then obtain f e where g: "get_symbols v = Inr ([f], [e])"
    using get_symbols_glyphs [of v d0 e0] assms by auto
  show ?thesis by (cases r) (simp add: format_row_valid [OF g])
qed

text \<open>
  The block of the times of day, from raw counters that are not negative and not all
  zero: four rows, row \<open>i\<close> made from the label of position \<open>i\<close> and the raw counter
  \<open>(i + 1) mod 4\<close>.
\<close>

lemma day_time_stats_rows:
  assumes "length raw = 4" and "\<forall>n\<in>set raw. 0 \<le> n" and "0 < sum_list raw"
    and "get_symbols symbol_version = Inr glyphs"
  shows "\<exists>title rows.
           day_time_stats translate symbol_version raw
             = Inr (ascii ''**'' @ title @ ascii ''** \<newline>\<newline>'' @ fence @ ascii ''text\<newline>''
                    @ py_join (ascii ''\<newline>'') rows @ ascii ''\<newline>'' @ fence @ ascii ''\<newline>'')
         \<and> length rows = 4
         \<and> (\<forall>i<4. \<exists>p. percent (raw ! ((i + 1) mod 4)) (sum_list raw) = Inr p
                \<and> format_row symbol_version
                     (DAY_TIME_EMOJI ! i @ ascii '' '' @ translate (DAY_TIME_NAMES ! i),
                      str_int (raw ! ((i + 1) mod 4)) @ ascii '' commits'', p) = Inr (rows ! i))"
proof -
  obtain a b c d where raw: "raw = [a, b, c, d]"
    using assms(1) by (auto simp: length_Suc_conv eval_nat_numeral)
  define s where "s = sum_list raw"
  have nn: "0 \<le> a" "0 \<le> b" "0 \<le> c" "0 \<le> d" using assms(2) by (simp_all add: raw)
  have s: "s = a + b + c + d" "0 < s" using assms(3) by (simp_all add: s_def raw)
  have le: "a \<le> s" "b \<le> s" "c \<le> s" "d \<le> s" using nn s(1) by simp_all
  obtain pa where pa: "percent a s = Inr pa" using percent_in_range [OF s(2) nn(1) le(1)] by blast
  obtain pb where pb: "percent b s = Inr pb" using percent_in_range [OF s(2) nn(2) le(2)] by blast
  obtain pc where pc: "percent c s = Inr pc" using percent_in_range [OF s(2) nn(3) le(3)] by blast
  obtain pd where pd: "percent d s = Inr pd" using percent_in_range [OF s(2) nn(4) le(4)] by blast
  obtain r0 where r0: "format_row symbol_version
      (DAY_TIME_EMOJI ! 0 @ ascii '' '' @ translate (DAY_TIME_NAMES ! 0), str_int b @ ascii '' commits'', pb) = Inr r0"
    using format_row_returns [OF assms(4)] by blast
  obtain r1 where r1: "format_row symbol_version
      (DAY_TIME_EMOJI ! 1 @ ascii '' '' @ translate (DAY_TIME_NAMES ! 1), str_int c @ ascii '' commits'', pc) = Inr r1"
    using format_row_returns [OF assms(4)] by blast
  obtain r2 where r2: "format_row symbol_version
      (DAY_TIME_EMOJI ! 2 @ ascii '' '' @ translate (DAY_TIME_NAMES ! 2), str_int d @ ascii '' commits'', pd) = Inr r2"
    using format_row_returns [OF assms(4)] by blast
  obtain r3 where r3: "format_row symbol_version
      (DAY_TIME_EMOJI ! 3 @ ascii '' '' @ translate (DAY_TIME_NAMES ! 3), str_int a @ ascii '' commits'', pa) = Inr r3"
    using format_row_returns [OF assms(4)] by blast
  define title where "title = (if sum_list (take 2 (rotate_day_times raw)) \<ge> sum_list (take 2 (drop 2 (rotate_day_times raw)))
                          then translate ''I am an Early'' else translate ''I am a Night'')"
  have rot: "rotate_day_times raw = [b, c, d, a]" by (simp add: rotate_day_times_def raw)
  have out: "day_time_stats translate symbol_version raw
             = Inr (ascii ''**'' @ title @ ascii ''** \<newline>\<newline>'' @ fence @ ascii ''text\<newline>''
                    @ py_join (ascii ''\<newline>'') [r0, r1, r2, r3] @ ascii ''\<newline>'' @ fence @ ascii ''\<newline>'')"
    using pa pb pc pd r0 r1 r2 r3
    by (simp add: day_time_stats_def Let_def rot s_def [symmetric] make_list_def top_data_def slice_to_def
        title_def upt_rec DAY_TIME_EMOJI_def DAY_TIME_NAMES_def)
  have rows: "\<exists>p. percent (raw ! ((i + 1) mod 4)) (sum_list raw) = Inr p
                \<and> format_row symbol_version
                     (DAY_TIME_EMOJI ! i @ ascii '' '' @ translate (DAY_TIME_NAMES ! i),
                      str_int (raw ! ((i + 1) mod 4)) @ ascii '' commits'', p) = Inr ([r0, r1, r2, r3] ! i)"
    if "i < 4" for i
  proof -
    from that consider "i = 0" | "i = 1" | "i = 2" | "i = 3" by linarith
    then show ?thesis
    proof cases
      case 1
      then show ?thesis using pb r0 by (simp add: raw s_def DAY_TIME_EMOJI_def DAY_TIME_NAMES_def)
    next
      case 2
      then show ?thesis using pc r1 by (simp add: raw s_def DAY_TIME_EMOJI_def DAY_TIME_NAMES_def)
    next
      case 3
      then show ?thesis using pd r2 by (simp add: raw s_def DAY_TIME_EMOJI_def DAY_TIME_NAMES_def)
    next
      case 4
      then show ?thesis using pa r3 by (simp add: raw s_def DAY_TIME_EMOJI_def DAY_TIME_NAMES_def)
    qed
  qed
  show ?thesis
    by (intro exI [of _ title] exI [of _ "[r0, r1, r2, r3]"] conjI out allI impI rows) simp_all
qed

lemma week_day_stats_returns:
  assumes "length week_days = 7" and "\<forall>n\<in>set week_days. 0 \<le> n" and "0 < sum_list week_days"
    and "get_symbols symbol_version = Inr glyphs"
  shows "\<exists>out. week_day_stats translate translate_with symbol_version week_days = Inr out"
proof -
  have "\<exists>p. percent n (sum_list week_days) = Inr p" if "n \<in> set week_days" for n
    using percent_in_range [OF assms(3), of n] assms(2) that
      member_le_sum_list_int [OF assms(2) that] by blast
  then obtain h where "\<And>n. n \<in> set week_days \<Longrightarrow> percent n (sum_list week_days) = Inr (h n)"
    by metis
  then have tr: "traverse (\<lambda>week_day. percent week_day (sum_list week_days)) week_days = Inr (map h week_days)"
    by (intro traverse_all_Inr) simp
  have "map h week_days \<noteq> []" using assms(1) by auto
  then obtain k where k: "index_of_max (map h week_days) = Inr k"
    by (cases "map h week_days") simp_all
  obtain rows where rows: "traverse (format_row symbol_version)
      (top_data (map translate WEEK_DAY_NAMES)
         (map (\<lambda>week_day. str_int week_day @ ascii '' commits'') week_days) (map h week_days) 7 False) = Inr rows"
    using make_list_returns [OF assms(4)] by blast
  show ?thesis
    using tr k rows by (simp add: week_day_stats_def Let_def make_list_def)
qed

text \<open>
  Claim C9. Every commit date (with an hour from 0 to 23 and a weekday from 1 to 7, as
  \<open>datetime\<close> gives them) is counted in the bucket \<open>hour // 6\<close> of four buckets, so after
  the loops bucket \<open>b\<close> of the raw array holds the number of dates with \<open>hour // 6 = b\<close>.
  The rotation of line 110 comes after the loops and only reorders: position \<open>i\<close> of the
  rotated array is position \<open>(i + 1) mod 4\<close> of the raw one, with the same counts as a
  multiset and the same sum. The report that \<open>make_commit_day_time_list\<close> returns
  publishes the counts in this order: it opens with the title and a block of four rows,
  and row \<open>i\<close> carries the label of position \<open>i\<close> (Morning, Daytime, Evening, Night), the
  count of the raw bucket \<open>(i + 1) mod 4\<close> and its percentage of all dates, so the rows
  stand for the hours 6-12, 12-18, 18-24 and 0-6. Without any date the percentage
  divides by zero and nothing is published.
\<close>

theorem commit_day_times:
  assumes "dates = concat (map (\<lambda>r. case r of None \<Rightarrow> [] | Some ds \<Rightarrow> ds) repos)"
    and "\<forall>d\<in>set dates. 0 \<le> hour d \<and> hour d < 24 \<and> 1 \<le> isoweekday d \<and> isoweekday d \<le> 7"
    and "get_symbols symbol_version = Inr glyphs"
  shows "\<exists>raw week_days. count_commits repos = Inr (raw, week_days) \<and> length raw = 4
           \<and> (\<forall>b<4. raw ! b = int (length (filter (\<lambda>d. hour d div 6 = int b) dates)))
           \<and> (\<forall>i<4. rotate_day_times raw ! i = raw ! ((i + 1) mod 4))
           \<and> mset (rotate_day_times raw) = mset raw
           \<and> sum_list (rotate_day_times raw) = sum_list raw
           \<and> (dates = [] \<longrightarrow>
                 make_commit_day_time_list translate translate_with symbol_version show_days_of_week repos
                   = Inl ZeroDivisionError)
           \<and> (dates \<noteq> [] \<longrightarrow>
                 (\<exists>title rows rest.
                    make_commit_day_time_list translate translate_with symbol_version show_days_of_week repos
                      = Inr (ascii ''**'' @ title @ ascii ''** \<newline>\<newline>'' @ fence @ ascii ''text\<newline>''
                             @ py_join (ascii ''\<newline>'') rows @ ascii ''\<newline>'' @ fence @ ascii ''\<newline>'' @ rest)
                  \<and> length rows = 4
                  \<and> (\<not> show_days_of_week \<longrightarrow> rest = [])
                  \<and> (\<forall>i<4. \<exists>p. percent (raw ! ((i + 1) mod 4)) (int (length dates)) = Inr p
                         \<and> format_row symbol_version
                              (DAY_TIME_EMOJI ! i @ ascii '' '' @ translate (DAY_TIME_NAMES ! i),
                               str_int (raw ! ((i + 1) mod 4)) @ ascii '' commits'', p) = Inr (rows ! i))))"
proof -
  obtain raw wd where r: "count_repos (replicate 4 0, replicate 7 0) repos = Inr (raw, wd)" "length raw = 4"
    "\<forall>b<4. raw ! b = replicate 4 0 ! b + int (length (filter (\<lambda>d. hour d div 6 = int b) dates))"
    using count_repos_counts [of "replicate 4 0" "replicate 7 0" repos] assms(1,2) by auto
  have cc: "count_commits repos = Inr (raw, wd)" using r(1) by (simp add: count_commits_def)
  have cnt: "\<forall>b<4. raw ! b = int (length (filter (\<lambda>d. hour d div 6 = int b) dates))"
    using r(3) by simp
  have sums: "sum_list raw = int (length dates)" "sum_list wd = int (length dates)" "length wd = 7"
    using count_repos_sums [OF r(1) assms(1)] by (simp_all add: sum_list_replicate)
  have nn: "\<forall>n\<in>set raw. 0 \<le> n" "\<forall>n\<in>set wd. 0 \<le> n"
    using count_repos_nonneg [OF r(1)] by simp_all
  have rotsum: "sum_list (rotate_day_times raw) = sum_list raw"
    using mset_rotate_day_times [of raw] by (metis sum_mset_sum_list)
  have empty: "make_commit_day_time_list translate translate_with symbol_version show_days_of_week repos
                   = Inl ZeroDivisionError" if "dates = []"
  proof -
    have "raw ! b = 0" if "b < 4" for b using cnt that \<open>dates = []\<close> by simp
    then have "raw = [0, 0, 0, 0]"
      using r(2) by (intro nth_equalityI) (auto simp: nth_Cons' )
    then have "day_time_stats translate symbol_version raw = Inl ZeroDivisionError"
      by (simp add: day_time_stats_def rotate_day_times_def percent_def Let_def)
    then show ?thesis using cc by (simp add: make_commit_day_time_list_def)
  qed
  have full: "\<exists>title rows rest.
                    make_commit_day_time_list translate translate_with symbol_version show_days_of_week repos
                      = Inr (ascii ''**'' @ title @ ascii ''** \<newline>\<newline>'' @ fence @ ascii ''text\<newline>''
                             @ py_join (ascii ''\<newline>'') rows @ ascii ''\<newline>'' @ fence @ ascii ''\<newline>'' @ rest)
                  \<and> length rows = 4
                  \<and> (\<not> show_days_of_week \<longrightarrow> rest = [])
                  \<and> (\<forall>i<4. \<exists>p. percent (raw ! ((i + 1) mod 4)) (int (length dates)) = Inr p
                         \<and> format_row symbol_version
                              (DAY_TIME_EMOJI ! i @ ascii '' '' @ translate (DAY_TIME_NAMES ! i),
                               str_int (raw ! ((i + 1) mod 4)) @ ascii '' commits'', p) = Inr (rows ! i))"
    if "dates \<noteq> []"
  proof -
    have pos: "0 < sum_list raw" "0 < sum_list wd" using that sums by simp_all
    obtain title rows where d: "day_time_stats translate symbol_version raw
             = Inr (ascii ''**'' @ title @ ascii ''** \<newline>\<newline>'' @ fence @ ascii ''text\<newline>''
                    @ py_join (ascii ''\<newline>'') rows @ ascii ''\<newline>'' @ fence @ ascii ''\<newline>'')"
      "length rows = 4"
      "\<forall>i<4. \<exists>p. percent (raw ! ((i + 1) mod 4)) (sum_list raw) = Inr p
                \<and> format_row symbol_version
                     (DAY_TIME_EMOJI ! i @ ascii '' '' @ translate (DAY_TIME_NAMES ! i),
                      str_int (raw ! ((i + 1) mod 4)) @ ascii '' commits'', p) = Inr (rows ! i)"
      using day_time_stats_rows [OF r(2) nn(1) pos(1) assms(3), of translate] by blast
    obtain week where w: "week_day_stats translate translate_with symbol_version wd = Inr week"
      using week_day_stats_returns [OF sums(3) nn(2) pos(2) assms(3)] by blast
    define rest where "rest = (if show_days_of_week then week else [])"
    have "make_commit_day_time_list translate translate_with symbol_version show_days_of_week repos
                      = Inr (ascii ''**'' @ title @ ascii ''** \<newline>\<newline>'' @ fence @ ascii ''text\<newline>''
                             @ py_join (ascii ''\<newline>'') rows @ ascii ''\<newline>'' @ fence @ ascii ''\<newline>'' @ rest)"
      using cc d(1) w by (simp add: make_commit_day_time_list_def rest_def)
    moreover have "\<not> show_days_of_week \<longrightarrow> rest = []" by (simp add: rest_def)
    ultimately show ?thesis using d(2,3) unfolding sums(1) by blast
  qed
  show ?thesis
    using cc r(2) cnt rotate_day_times_four [OF r(2)] mset_rotate_day_times [of raw] rotsum empty full
    by (intro exI [of _ raw] exI [of _ wd]) (intro conjI impI; assumption?)
qed

theorem commit_day_times_witness:
  "list_all (\<lambda>d. 0 \<le> hour d \<and> hour d < 24 \<and> 1 \<le> isoweekday d \<and> isoweekday d \<le> 7)
     [\<lparr>hour = 7, isoweekday = 1\<rparr>, \<lparr>hour = 23, isoweekday = 7\<rparr>, \<lparr>hour = 0, isoweekday = 3\<rparr>]
   \<and> get_symbols 1 = Inr ([0x2588], [0x2591])
   \<and> count_commits [Some [\<lparr>hour = 7, isoweekday = 1\<rparr>, \<lparr>hour = 23, isoweekday = 7\<rparr>], None, Some [\<lparr>hour = 0, isoweekday = 3\<rparr>]]
       = Inr ([1, 1, 0, 1], [1, 0, 1, 0, 0, 0, 1])
   \<and> rotate_day_times [1, 1, 0, 1] = [1, 0, 1, 1]
   \<and> (\<exists>title rows.
         make_commit_day_time_list ascii (\<lambda>key arg. ascii key @ arg) 1 False
           [Some [\<lparr>hour = 7, isoweekday = 1\<rparr>, \<lparr>hour = 23, isoweekday = 7\<rparr>], None, Some [\<lparr>hour = 0, isoweekday = 3\<rparr>]]
           = Inr (ascii ''**'' @ title @ ascii ''** \<newline>\<newline>'' @ fence @ ascii ''text\<newline>''
                  @ py_join (ascii ''\<newline>'') rows @ ascii ''\<newline>'' @ fence @ ascii ''\<newline>'')
         \<and> length rows = 4
         \<and> (\<exists>p. percent 1 3 = Inr p
               \<and> format_row 1 (DAY_TIME_EMOJI ! 0 @ ascii '' '' @ ascii (DAY_TIME_NAMES ! 0),
                                str_int 1 @ ascii '' commits'', p) = Inr (rows ! 0))
         \<and> (\<exists>p. percent 0 3 = Inr p
               \<and> format_row 1 (DAY_TIME_EMOJI ! 1 @ ascii '' '' @ ascii (DAY_TIME_NAMES ! 1),
                                str_int 0 @ ascii '' commits'', p) = Inr (rows ! 1)))"
proof -
  let ?repos = "[Some [\<lparr>hour = 7, isoweekday = 1\<rparr>, \<lparr>hour = 23, isoweekday = 7\<rparr>], None, Some [\<lparr>hour = 0, isoweekday = 3\<rparr>]]"
  let ?dates = "[\<lparr>hour = 7, isoweekday = 1\<rparr>, \<lparr>hour = 23, isoweekday = 7\<rparr>, \<lparr>hour = 0, isoweekday = 3\<rparr>]"
  have d: "?dates = concat (map (\<lambda>r. case r of None \<Rightarrow> [] | Some ds \<Rightarrow> ds) ?repos)"
    by simp
  have v: "\<forall>d\<in>set ?dates. 0 \<le> hour d \<and> hour d < 24 \<and> 1 \<le> isoweekday d \<and> isoweekday d \<le> 7"
    by simp
  have g: "get_symbols 1 = Inr ([0x2588], [0x2591])" by (simp add: get_symbols_def)
  have c: "count_commits ?repos = Inr ([1, 1, 0, 1], [1, 0, 1, 0, 0, 0, 1])"
    by (simp add: count_commits_def list_incr_def eval_nat_numeral)
  have r: "rotate_day_times [1, 1, 0, 1] = [1, 0, 1, 1]" by (simp add: rotate_day_times_def)
  from commit_day_times [OF d v g, of ascii "\<lambda>key arg. ascii key @ arg" False]
  obtain raw week_days where t: "count_commits ?repos = Inr (raw, week_days)"
    "?dates \<noteq> [] \<longrightarrow>
       (\<exists>title rows rest.
          make_commit_day_time_list ascii (\<lambda>key arg. ascii key @ arg) 1 False ?repos
            = Inr (ascii ''**'' @ title @ ascii ''** \<newline>\<newline>'' @ fence @ ascii ''text\<newline>''
                   @ py_join (ascii ''\<newline>'') rows @ ascii ''\<newline>'' @ fence @ ascii ''\<newline>'' @ rest)
        \<and> length rows = 4
        \<and> (\<not> False \<longrightarrow> rest = [])
        \<and> (\<forall>i<4. \<exists>p. percent (raw ! ((i + 1) mod 4)) (int (length ?dates)) = Inr p
               \<and> format_row 1
                    (DAY_TIME_EMOJI ! i @ ascii '' '' @ ascii (DAY_TIME_NAMES ! i),
                     str_int (raw ! ((i + 1) mod 4)) @ ascii '' commits'', p) = Inr (rows ! i)))"
    by blast
  from t(1) c have raw: "raw = [1, 1, 0, 1]" by simp
  from t(2) obtain title rows where o:
    "make_commit_day_time_list ascii (\<lambda>key arg. ascii key @ arg) 1 False ?repos
            = Inr (ascii ''**'' @ title @ ascii ''** \<newline>\<newline>'' @ fence @ ascii ''text\<newline>''
                   @ py_join (ascii ''\<newline>'') rows @ ascii ''\<newline>'' @ fence @ ascii ''\<newline>'')"
    "length rows = 4"
    "\<forall>i<4. \<exists>p. percent (raw ! ((i + 1) mod 4)) (int (length ?dates)) = Inr p
               \<and> format_row 1
                    (DAY_TIME_EMOJI ! i @ ascii '' '' @ ascii (DAY_TIME_NAMES ! i),
                     str_int (raw ! ((i + 1) mod 4)) @ ascii '' commits'', p) = Inr (rows ! i)"
    by auto
  have r0: "\<exists>p. percent 1 3 = Inr p
               \<and> format_row 1 (DAY_TIME_EMOJI ! 0 @ ascii '' '' @ ascii (DAY_TIME_NAMES ! 0),
                                str_int 1 @ ascii '' commits'', p) = Inr (rows ! 0)"
    using o(3) [rule_format, of 0] by (simp add: raw)
  have r1: "\<exists>p. percent 0 3 = Inr p
               \<and> format_row 1 (DAY_TIME_EMOJI ! 1 @ ascii '' '' @ ascii (DAY_TIME_NAMES ! 1),
                                str_int 0 @ ascii '' commits'', p) = Inr (rows ! 1)"
    using o(3) [rule_format, of 1] by (simp add: raw)
  have va: "list_all (\<lambda>d. 0 \<le> hour d \<and> hour d < 24 \<and> 1 \<le> isoweekday d \<and> isoweekday d \<le> 7) ?dates"
    by simp
  show ?thesis
    using va g c r o(1,2) r0 r1 by (intro conjI exI [of _ title] exI [of _ rows])
qed

end
